theory Spec2Isabelle
  imports Complex_Main "HOL-Library.Word" "HOL-Library.Sublist"
begin

section \<open>JavaScript strings\<close>

text \<open>
  A JavaScript string is a sequence of UTF-16 code units: \<open>.length\<close> counts them,
  \<open>includes\<close> and \<open>startsWith\<close> compare them. String literals of the source are
  ASCII and are written \<open>js ''...''\<close>.
\<close>

type_synonym jsstring = "16 word list"

definition js :: "string \<Rightarrow> jsstring" where
  "js s = map of_char s"

text \<open>\<open>String.prototype.includes\<close> and \<open>String.prototype.startsWith\<close>.\<close>

definition includes_js :: "jsstring \<Rightarrow> jsstring \<Rightarrow> bool" where
  "includes_js s search = sublist search s"

definition startsWith :: "jsstring \<Rightarrow> jsstring \<Rightarrow> bool" where
  "startsWith s search = prefix search s"

text \<open>
  The code units that \<open>trim\<close>, \<open>parseInt\<close> and the regular expression class \<open>\s\<close>
  treat as white space: ECMAScript WhiteSpace and LineTerminator.
\<close>

definition isWhiteSpace :: "16 word \<Rightarrow> bool" where
  "isWhiteSpace c \<longleftrightarrow>
     c = 0x09 \<or> c = 0x0A \<or> c = 0x0B \<or> c = 0x0C \<or> c = 0x0D \<or> c = 0x20 \<or>
     c = 0xA0 \<or> c = 0x1680 \<or> (0x2000 \<le> c \<and> c \<le> 0x200A) \<or>
     c = 0x2028 \<or> c = 0x2029 \<or> c = 0x202F \<or> c = 0x205F \<or> c = 0x3000 \<or> c = 0xFEFF"

definition trim :: "jsstring \<Rightarrow> jsstring" where
  "trim s = rev (dropWhile isWhiteSpace (rev (dropWhile isWhiteSpace s)))"

text \<open>\<open>s.split(sep)[0]\<close> for a separator of one code unit: the text before its first occurrence.\<close>

definition split_first :: "16 word \<Rightarrow> jsstring \<Rightarrow> jsstring" where
  "split_first sep s = takeWhile (\<lambda>c. c \<noteq> sep) s"

text \<open>
  \<open>headers.get\<close> yields a string or \<open>null\<close>. In a condition (\<open>if (v)\<close>) and on the
  left of \<open>||\<close>, \<open>null\<close> and the empty string are both falsy.
\<close>

definition truthy :: "jsstring option \<Rightarrow> jsstring option" where
  "truthy v = (case v of None \<Rightarrow> None | Some s \<Rightarrow> if s = [] then None else Some s)"

definition orElse :: "jsstring option \<Rightarrow> jsstring \<Rightarrow> jsstring" where
  "orElse v d = (case truthy v of None \<Rightarrow> d | Some s \<Rightarrow> s)"

section \<open>Requests, responses, handlers\<close>

datatype formvalue = FormString jsstring | FormFile jsstring

text \<open>
  The part of a \<open>NextRequest\<close> the stages read. Header names are the lower-case names the
  source passes to \<open>headers.get\<close>. The body is seen through what the runtime's readers
  resolve to: \<open>bodyText\<close> is the result of \<open>clone().text()\<close>, \<open>formEntries\<close> the result of
  \<open>formData()\<close> (\<open>None\<close> when it rejects), and \<open>timerFiresFirst\<close> tells whether the
  \<open>REQUEST_TIMEOUT\<close> timer settles before the awaited body read does.
\<close>

record request =
  requestMethod :: jsstring
  pathname :: jsstring
  headers :: "string \<rightharpoonup> jsstring"
  bodyText :: jsstring
  formEntries :: "(jsstring \<times> formvalue) list option"
  timerFiresFirst :: bool

record cookie =
  cookieValue :: jsstring
  httpOnly :: bool
  sameSite :: jsstring
  maxAge :: nat
  cookiePath :: jsstring

text \<open>
  A response body: \<open>JSON_stringify obj\<close> is the text \<open>JSON.stringify\<close> produces for the
  flat object \<open>obj\<close> of string fields. In a response, \<open>cookies\<close> holds the cookies set
  on it, by name (its \<open>Set-Cookie\<close> headers), and \<open>responseHeaders\<close> its other headers.
\<close>

datatype body = JSON_stringify "(jsstring \<times> jsstring) list" | BodyText jsstring | NoBody

record response =
  status :: nat
  responseBody :: body
  responseHeaders :: "string \<rightharpoonup> jsstring"
  cookies :: "jsstring \<rightharpoonup> cookie"

text \<open>
  What a middleware may resolve to (\<open>NextMiddlewareResult\<close>): a \<open>NextResponse\<close>, a plain
  \<open>Response\<close>, \<open>null\<close> or \<open>undefined\<close>. A promise either resolves or rejects with an
  error message.
\<close>

datatype result = NextResponse response | PlainResponse response | ResultNull | ResultUndefined

datatype 'a outcome = Returned 'a | Thrown jsstring

text \<open>
  A handler takes the request, the fetch event and the state of everything outside the
  stage (counter store, inner handlers), and gives its outcome and the new state.
\<close>

type_synonym ('e, 'w) handler = "request \<Rightarrow> 'e \<Rightarrow> 'w \<Rightarrow> result outcome \<times> 'w"

text \<open>\<open>NextResponse.json(obj, {status})\<close> and
  \<open>new NextResponse(JSON.stringify(obj), {status, headers: {'Content-Type': 'application/json'}})\<close>.\<close>

definition jsonResponse :: "(jsstring \<times> jsstring) list \<Rightarrow> nat \<Rightarrow> response" where
  "jsonResponse obj st =
     \<lparr>status = st, responseBody = JSON_stringify obj,
      responseHeaders = [''content-type'' \<mapsto> js ''application/json''],
      cookies = Map.empty\<rparr>"

section \<open>Client address\<close>

definition getIpAddress :: "request \<Rightarrow> jsstring" where
  "getIpAddress request =
     (let forwarded = headers request ''x-forwarded-for'';
          realIp = headers request ''x-real-ip''
      in case truthy forwarded of
           Some f \<Rightarrow>
             (let forwardedIp = trim (split_first 0x2C f)
              in if forwardedIp = js ''::1'' then js ''127.0.0.1'' else forwardedIp)
         | None \<Rightarrow>
             (case truthy realIp of
                Some r \<Rightarrow> if r = js ''::1'' then js ''127.0.0.1'' else r
              | None \<Rightarrow> js ''127.0.0.1''))"

text \<open>The resolver as the specification words it: a header counts as soon as it is present.\<close>

definition getIpAddress_spec :: "request \<Rightarrow> jsstring" where
  "getIpAddress_spec request =
     (case headers request ''x-forwarded-for'' of
        Some f \<Rightarrow>
          (let t = trim (split_first 0x2C f) in if t = js ''::1'' then js ''127.0.0.1'' else t)
      | None \<Rightarrow>
          (case headers request ''x-real-ip'' of
             Some r \<Rightarrow> if r = js ''::1'' then js ''127.0.0.1'' else r
           | None \<Rightarrow> js ''127.0.0.1''))"

section \<open>Rate limiter\<close>

text \<open>
  \<open>Ratelimit.slidingWindow\<close> belongs to an external library and is a parameter: given
  capacity, window length in seconds and key, it answers \<open>success\<close> and updates the store.
\<close>

type_synonym 'w limiter = "nat \<Rightarrow> nat \<Rightarrow> jsstring \<Rightarrow> 'w \<Rightarrow> bool outcome \<times> 'w"

definition ratelimit :: "'w limiter \<Rightarrow> jsstring \<Rightarrow> 'w \<Rightarrow> bool outcome \<times> 'w" where
  "ratelimit slidingWindow = slidingWindow 300 60"

definition withRateLimit :: "'w limiter \<Rightarrow> ('e, 'w) handler \<Rightarrow> ('e, 'w) handler" where
  "withRateLimit slidingWindow next request event w =
     (if includes_js (pathname request) (js ''/api/webhooks'') then next request event w
      else if includes_js (pathname request) (js ''/api/trpc/explorer.getExplorerData'')
      then next request event w
      else if includes_js (pathname request) (js ''/api'') then
        (let ip = getIpAddress request in
         case ratelimit slidingWindow ip w of
           (Thrown e, w') \<Rightarrow> (Thrown e, w')
         | (Returned success, w') \<Rightarrow>
             if \<not> success
             then (Returned (NextResponse
                     (jsonResponse [(js ''error'', js ''Too many requests'')] 429)), w')
             else next request event w')
      else next request event w)"

section \<open>Payload validator\<close>

subsection \<open>Configuration\<close>

definition MAX_PAYLOAD_SIZE :: nat where "MAX_PAYLOAD_SIZE = 500000"
definition MAX_FIELD_LENGTH :: nat where "MAX_FIELD_LENGTH = 1000"
definition MAX_FORM_FIELDS :: nat where "MAX_FORM_FIELDS = 10"
definition REQUEST_TIMEOUT :: nat where "REQUEST_TIMEOUT = 5000"
definition MAX_NESTING_DEPTH :: nat where "MAX_NESTING_DEPTH = 3"

subsection \<open>JavaScript values\<close>

text \<open>
  \<open>checkNestingDepth\<close> takes any value, and a value may refer to itself. Objects and
  arrays therefore live in a heap: a reference \<open>JRef a\<close> names the object at address
  \<open>a\<close>, and the heap gives its enumerable properties in \<open>for ... in\<close> order (for an
  array, its indices).
\<close>

type_synonym addr = nat

datatype jsval = JUndefined | JNull | JBool bool | JNumber rat | JString jsstring | JRef addr

type_synonym heap = "addr \<Rightarrow> (jsstring \<times> jsval) list"

text \<open>\<open>typeof v === 'object' && v !== null\<close>\<close>

definition isObject :: "jsval \<Rightarrow> bool" where
  "isObject v = (case v of JRef _ \<Rightarrow> True | _ \<Rightarrow> False)"

definition typeof :: "jsval \<Rightarrow> string" where
  "typeof v = (case v of
      JUndefined \<Rightarrow> ''undefined'' | JNull \<Rightarrow> ''object'' | JBool _ \<Rightarrow> ''boolean''
    | JNumber _ \<Rightarrow> ''number'' | JString _ \<Rightarrow> ''string'' | JRef _ \<Rightarrow> ''object'')"

text \<open>\<open>!v\<close>\<close>

definition falsy :: "jsval \<Rightarrow> bool" where
  "falsy v = (case v of
      JUndefined \<Rightarrow> True | JNull \<Rightarrow> True | JBool b \<Rightarrow> \<not> b
    | JNumber n \<Rightarrow> n = 0 | JString s \<Rightarrow> s = [] | JRef _ \<Rightarrow> False)"

text \<open>The code units of a value whose \<open>typeof\<close> is \<open>'string'\<close>.\<close>

definition stringOf :: "jsval \<Rightarrow> jsstring" where
  "stringOf v = (case v of JString s \<Rightarrow> s | _ \<Rightarrow> [])"

text \<open>
  \<open>body.email\<close> and \<open>body.password\<close>: reading a property of \<open>null\<close> or \<open>undefined\<close>
  throws a TypeError (the message is V8's); an object gives the property or \<open>undefined\<close>;
  a boolean, number or string has no property of either name.
\<close>

definition nullPropertyMessage :: "jsstring \<Rightarrow> jsstring" where
  "nullPropertyMessage key =
     js ''Cannot read properties of null (reading '' @ [0x27] @ key @ [0x27] @ js '')''"

definition getProperty :: "heap \<Rightarrow> jsval \<Rightarrow> jsstring \<Rightarrow> jsval outcome" where
  "getProperty h v key = (case v of
      JUndefined \<Rightarrow> Thrown (nullPropertyMessage key)
    | JNull \<Rightarrow> Thrown (nullPropertyMessage key)
    | JRef a \<Rightarrow> Returned (case map_of (h a) key of Some x \<Rightarrow> x | None \<Rightarrow> JUndefined)
    | _ \<Rightarrow> Returned JUndefined)"

subsection \<open>Nesting depth\<close>

text \<open>
  The source shares one mutable \<open>visited\<close> set among all recursive calls; the model
  passes it through. \<open>checkProperties\<close> is the \<open>for ... in\<close> loop.
\<close>

function checkNestingDepth :: "heap \<Rightarrow> jsval \<Rightarrow> nat \<Rightarrow> addr set \<Rightarrow> bool \<times> addr set"
  and checkProperties :: "heap \<Rightarrow> (jsstring \<times> jsval) list \<Rightarrow> nat \<Rightarrow> addr set \<Rightarrow> bool \<times> addr set"
where
  "checkNestingDepth h obj depth visited =
     (if depth > MAX_NESTING_DEPTH then (True, visited)
      else case obj of
        JRef a \<Rightarrow>
          if a \<in> visited then (True, visited)
          else (case checkProperties h (h a) depth (insert a visited) of
                  (True, visited') \<Rightarrow> (True, visited')
                | (False, visited') \<Rightarrow> (False, visited' - {a}))
      | _ \<Rightarrow> (False, visited))"
| "checkProperties h [] depth visited = (False, visited)"
| "checkProperties h ((key, v) # rest) depth visited =
     (if isObject v then
        (case checkNestingDepth h v (depth + 1) visited of
           (True, visited') \<Rightarrow> (True, visited')
         | (False, visited') \<Rightarrow> checkProperties h rest depth visited')
      else checkProperties h rest depth visited)"
  by pat_completeness auto
termination
  by (relation "inv_image (less_than <*lex*> less_than)
        (\<lambda>x. case x of
           Inl (h, obj, depth, visited) \<Rightarrow> (2 * (5 - depth), 0)
         | Inr (h, props, depth, visited) \<Rightarrow> (2 * (4 - depth) + 1, length props))")
     (auto simp: MAX_NESTING_DEPTH_def)

declare checkNestingDepth.simps [simp del]

text \<open>
  What the depth bound means: \<open>nests h v n\<close> holds when \<open>v\<close> is an object and a chain of
  \<open>n\<close> objects is nested inside it, each a property value of the one before. The top-level
  value has depth 0, so nesting that exceeds depth 3 is \<open>nests h v 4\<close>.
\<close>

fun nests :: "heap \<Rightarrow> jsval \<Rightarrow> nat \<Rightarrow> bool" where
  "nests h v 0 = isObject v"
| "nests h v (Suc n) =
     (case v of JRef a \<Rightarrow> (\<exists>p \<in> set (h a). nests h (snd p) n) | _ \<Rightarrow> False)"

text \<open>\<open>reaches h a v\<close>: the value \<open>v\<close> lies strictly inside the object at \<open>a\<close>.\<close>

inductive reaches :: "heap \<Rightarrow> addr \<Rightarrow> jsval \<Rightarrow> bool" for h where
  child: "(k, v) \<in> set (h a) \<Longrightarrow> reaches h a v"
| step: "(k, JRef b) \<in> set (h a) \<Longrightarrow> reaches h b v \<Longrightarrow> reaches h a v"

subsection \<open>Regular expressions\<close>

text \<open>
  \<open>RegExp.prototype.test\<close> for a pattern anchored by \<open>^\<close> and \<open>$\<close> (no flags) is a match
  of the whole string, decided here by derivatives. \<open>Class p\<close> is a character class.
\<close>

datatype regex = Fail | Eps | Class "16 word \<Rightarrow> bool" | Cat regex regex | Alt regex regex
  | Star regex

fun nullable :: "regex \<Rightarrow> bool" where
  "nullable Fail = False"
| "nullable Eps = True"
| "nullable (Class p) = False"
| "nullable (Cat r s) = (nullable r \<and> nullable s)"
| "nullable (Alt r s) = (nullable r \<or> nullable s)"
| "nullable (Star r) = True"

fun deriv :: "16 word \<Rightarrow> regex \<Rightarrow> regex" where
  "deriv c Fail = Fail"
| "deriv c Eps = Fail"
| "deriv c (Class p) = (if p c then Eps else Fail)"
| "deriv c (Cat r s) =
     (if nullable r then Alt (Cat (deriv c r) s) (deriv c s) else Cat (deriv c r) s)"
| "deriv c (Alt r s) = Alt (deriv c r) (deriv c s)"
| "deriv c (Star r) = Cat (deriv c r) (Star r)"

fun regex_test :: "regex \<Rightarrow> jsstring \<Rightarrow> bool" where
  "regex_test r [] = nullable r"
| "regex_test r (c # cs) = regex_test (deriv c r) cs"

text \<open>\<open>r+\<close>\<close>

definition OneOrMore :: "regex \<Rightarrow> regex" where
  "OneOrMore r = Cat r (Star r)"

text \<open>\<open>[^\s@]\<close>\<close>

definition notSpaceOrAt :: "16 word \<Rightarrow> bool" where
  "notSpaceOrAt c \<longleftrightarrow> \<not> isWhiteSpace c \<and> c \<noteq> 0x40"

text \<open>\<open>/^[^\s@]+@[^\s@]+\.[^\s@]+$/\<close>\<close>

definition emailRegex :: regex where
  "emailRegex =
     Cat (OneOrMore (Class notSpaceOrAt))
       (Cat (Class (\<lambda>c. c = 0x40))
         (Cat (OneOrMore (Class notSpaceOrAt))
           (Cat (Class (\<lambda>c. c = 0x2E))
             (OneOrMore (Class notSpaceOrAt)))))"

text \<open>
  What a pattern means, independently of the matcher: the set of strings it matches.
  \<open>repeats A\<close> is any number of strings of \<open>A\<close> in a row.
\<close>

inductive_set repeats :: "jsstring set \<Rightarrow> jsstring set" for A where
  none: "[] \<in> repeats A"
| more: "u \<in> A \<Longrightarrow> v \<in> repeats A \<Longrightarrow> u @ v \<in> repeats A"

fun matched :: "regex \<Rightarrow> jsstring set" where
  "matched Fail = {}"
| "matched Eps = {[]}"
| "matched (Class p) = {[c] | c. p c}"
| "matched (Cat r s) = {u @ v | u v. u \<in> matched r \<and> v \<in> matched s}"
| "matched (Alt r s) = matched r \<union> matched s"
| "matched (Star r) = repeats (matched r)"

subsection \<open>parseInt\<close>

text \<open>
  \<open>parseInt(s, 10)\<close>: skip leading white space, read an optional sign, then the longest
  run of decimal digits; \<open>NaN\<close> (here \<open>None\<close>) when there is no digit.
\<close>

definition isDigit :: "16 word \<Rightarrow> bool" where
  "isDigit c \<longleftrightarrow> 0x30 \<le> c \<and> c \<le> 0x39"

definition digitsValue :: "jsstring \<Rightarrow> nat" where
  "digitsValue ds = foldl (\<lambda>acc c. 10 * acc + (unat c - 48)) 0 ds"

definition parseInt :: "jsstring \<Rightarrow> int option" where
  "parseInt s =
     (let t = dropWhile isWhiteSpace s;
          negative = (case t of c # _ \<Rightarrow> c = 0x2D | [] \<Rightarrow> False);
          u = (case t of c # r \<Rightarrow> if c = 0x2D \<or> c = 0x2B then r else t | [] \<Rightarrow> t);
          ds = takeWhile isDigit u
      in if ds = [] then None
         else Some (if negative then - int (digitsValue ds) else int (digitsValue ds)))"

text \<open>\<open>x > bound\<close> for a number that may be \<open>NaN\<close>: every comparison with \<open>NaN\<close> is false.\<close>

definition exceeds :: "int option \<Rightarrow> nat \<Rightarrow> bool" where
  "exceeds x bound = (case x of None \<Rightarrow> False | Some n \<Rightarrow> n > int bound)"

subsection \<open>The checks\<close>

text \<open>
  \<open>JSON.parse\<close> is a parameter: it gives the heap holding the parsed structure and the
  top-level value, or \<open>None\<close> when it throws a syntax error.
\<close>

type_synonym parser = "jsstring \<Rightarrow> (heap \<times> jsval) option"

definition validateJson :: "parser \<Rightarrow> jsstring \<Rightarrow> unit outcome" where
  "validateJson JSON_parse rawText =
     (if length rawText > MAX_PAYLOAD_SIZE then Thrown (js ''Payload too large'')
      else case JSON_parse rawText of
        None \<Rightarrow> Thrown (js ''Invalid JSON payload'')
      | Some (h, body) \<Rightarrow>
          if fst (checkNestingDepth h body 0 {}) then Thrown (js ''Payload structure too complex'')
          else (case getProperty h body (js ''email'') of
            Thrown e \<Rightarrow> Thrown e
          | Returned email \<Rightarrow>
              if falsy email then Thrown (js ''Invalid credentials format'')
              else (case getProperty h body (js ''password'') of
                Thrown e \<Rightarrow> Thrown e
              | Returned password \<Rightarrow>
                  if falsy password \<or> typeof email \<noteq> ''string'' \<or> typeof password \<noteq> ''string''
                  then Thrown (js ''Invalid credentials format'')
                  else if \<not> regex_test emailRegex (stringOf email)
                  then Thrown (js ''Invalid email format'')
                  else if length (stringOf password) < 8 \<or> length (stringOf password) > 100
                  then Thrown (js ''Invalid password length'')
                  else Returned ())))"

text \<open>The loop over the form entries, and the body of the \<open>try\<close> block.\<close>

fun checkFields :: "(jsstring \<times> formvalue) list \<Rightarrow> unit outcome" where
  "checkFields [] = Returned ()"
| "checkFields ((key, FormFile f) # rest) = checkFields rest"
| "checkFields ((key, FormString v) # rest) =
     (if length v > MAX_FIELD_LENGTH then Thrown (js ''Form field too large'')
      else if includes_js v (js ''script'') \<or> includes_js v (js ''<'') \<or> includes_js v (js ''>'')
              \<or> includes_js v (js ''${'') \<or> includes_js v (js ''eval('')
      then Thrown (js ''Invalid form data content'')
      else checkFields rest)"

definition checkForm :: "(jsstring \<times> formvalue) list \<Rightarrow> unit outcome" where
  "checkForm entries =
     (if length entries > MAX_FORM_FIELDS then Thrown (js ''Too many form fields'')
      else checkFields entries)"

text \<open>
  The \<open>catch\<close> around the form branch replaces whatever was thrown inside it, a
  rejection of \<open>formData()\<close> included, by one message.
\<close>

definition validateForm :: "(jsstring \<times> formvalue) list option \<Rightarrow> unit outcome" where
  "validateForm formData = (case formData of
      None \<Rightarrow> Thrown (js ''Invalid form data'')
    | Some entries \<Rightarrow>
        (case checkForm entries of
           Thrown error \<Rightarrow> Thrown (js ''Invalid form data'')
         | Returned u \<Rightarrow> Returned u))"

text \<open>
  \<open>Promise.race\<close> of the checks against the timer. The checks run without waiting up to
  their first \<open>await\<close> (the body read), so an oversized declared length rejects at once;
  from there on the timer may settle first.
\<close>

definition raceChecks :: "parser \<Rightarrow> request \<Rightarrow> jsstring \<Rightarrow> unit outcome" where
  "raceChecks JSON_parse request contentType =
     (let contentLength = parseInt (orElse (headers request ''content-length'') (js ''0'')) in
      if exceeds contentLength MAX_PAYLOAD_SIZE then Thrown (js ''Payload too large'')
      else if includes_js contentType (js ''application/json'') then
        (if timerFiresFirst request then Thrown (js ''Request timeout'')
         else validateJson JSON_parse (bodyText request))
      else if includes_js contentType (js ''application/x-www-form-urlencoded'')
              \<or> includes_js contentType (js ''multipart/form-data'') then
        (if timerFiresFirst request then Thrown (js ''Request timeout'')
         else validateForm (formEntries request))
      else Returned ())"

definition withSecurityChecks :: "parser \<Rightarrow> ('e, 'w) handler \<Rightarrow> ('e, 'w) handler" where
  "withSecurityChecks JSON_parse next request event w =
     (if pathname request = js ''/signin/password_signin'' \<and> requestMethod request = js ''POST'' then
        (let contentType = orElse (headers request ''content-type'') [] in
         if \<not> includes_js contentType (js ''application/json'')
            \<and> \<not> includes_js contentType (js ''application/x-www-form-urlencoded'')
            \<and> \<not> includes_js contentType (js ''multipart/form-data'')
         then (Returned (NextResponse
                 (jsonResponse [(js ''error'', js ''Unsupported content type'')] 415)), w)
         else case raceChecks JSON_parse request contentType of
           Thrown message \<Rightarrow>
             (let errorMessage = orElse (Some message) (js ''Request processing failed'') in
              (Returned (NextResponse
                 (jsonResponse [(js ''error'', errorMessage)]
                    (if errorMessage = js ''Payload too large'' then 413 else 400))), w))
         | Returned u \<Rightarrow> next request event w)
      else next request event w)"

section \<open>Fingerprint\<close>

text \<open>\<open>generateFingerprint\<close> lives in a module outside these sources and is a parameter.\<close>

record fingerprintInput =
  ip :: jsstring
  userAgent :: jsstring
  language :: "jsstring option"

definition withFingerPrinting ::
  "(fingerprintInput \<Rightarrow> jsstring) \<Rightarrow> ('e, 'w) handler \<Rightarrow> ('e, 'w) handler" where
  "withFingerPrinting generateFingerprint next req event w =
     (case next req event w of
        (Thrown e, w') \<Rightarrow> (Thrown e, w')
      | (Returned res, w') \<Rightarrow>
          (let isSignupOrCallback =
                 startsWith (pathname req) (js ''/signin/signup'')
                 \<or> startsWith (pathname req) (js ''/auth/callback'')
           in if isSignupOrCallback then
                (let ip' = orElse (map_option (\<lambda>f. trim (split_first 0x2C f))
                                   (headers req ''x-forwarded-for'')) (js ''unknown'');
                     userAgent' = orElse (headers req ''user-agent'') (js ''unknown'');
                     acceptLanguage = truthy (headers req ''accept-language'');
                     fingerprint = generateFingerprint
                       \<lparr>ip = ip', userAgent = userAgent', language = acceptLanguage\<rparr>
                 in case res of
                      NextResponse r \<Rightarrow>
                        (Returned (NextResponse
                           (r\<lparr>cookies := (cookies r)(js ''sf_rsint'' \<mapsto>
                              \<lparr>cookieValue = fingerprint, httpOnly = False,
                               sameSite = js ''lax'', maxAge = 60 * 60 * 24 * 30,
                               cookiePath = js ''/''\<rparr>)\<rparr>)), w')
                    | _ \<Rightarrow> (Returned res, w'))
              else (Returned ResultUndefined, w')))"

text \<open>The cookies carried by what a stage hands back; \<open>null\<close> and \<open>undefined\<close> carry none.\<close>

definition cookiesOf :: "result \<Rightarrow> jsstring \<rightharpoonup> cookie" where
  "cookiesOf res = (case res of
      NextResponse r \<Rightarrow> cookies r | PlainResponse r \<Rightarrow> cookies r | _ \<Rightarrow> Map.empty)"

section \<open>Test doubles and sample requests\<close>

definition emptyRequest :: request where
  "emptyRequest = \<lparr>requestMethod = js ''GET'', pathname = js ''/'', headers = Map.empty,
     bodyText = [], formEntries = None, timerFiresFirst = False\<rparr>"

text \<open>A counter store that admits while fewer than \<open>capacity\<close> calls were counted.\<close>

definition countingLimiter :: "nat limiter" where
  "countingLimiter capacity window key count = (Returned (count < capacity), Suc count)"

definition denyingLimiter :: "nat limiter" where
  "denyingLimiter capacity window key count = (Returned False, Suc count)"

definition okHandler :: "(unit, nat) handler" where
  "okHandler request event w = (Returned (NextResponse (jsonResponse [] 200)), w)"

definition apiRequest :: request where
  "apiRequest = emptyRequest\<lparr>pathname := js ''/api/users''\<rparr>"

definition webhookRequest :: request where
  "webhookRequest = emptyRequest\<lparr>pathname := js ''/api/webhooks/stripe''\<rparr>"

definition emptyForwardedRequest :: request where
  "emptyForwardedRequest = emptyRequest\<lparr>headers :=
     [''x-forwarded-for'' \<mapsto> [], ''x-real-ip'' \<mapsto> js ''10.0.0.1'']\<rparr>"

definition dashboardRequest :: request where
  "dashboardRequest = emptyRequest\<lparr>pathname := js ''/dashboard''\<rparr>"

definition signupRequest :: request where
  "signupRequest = emptyRequest\<lparr>pathname := js ''/signin/signup'',
     headers := [''x-forwarded-for'' \<mapsto> js ''203.0.113.7, 10.0.0.5'']\<rparr>"

definition plainHandler :: "(unit, nat) handler" where
  "plainHandler request event w =
     (Returned (PlainResponse \<lparr>status = 200, responseBody = NoBody,
        responseHeaders = Map.empty, cookies = Map.empty\<rparr>), w)"

text \<open>A fingerprint function for the examples: it joins its inputs.\<close>

definition joinFingerprint :: "fingerprintInput \<Rightarrow> jsstring" where
  "joinFingerprint i = ip i @ js ''|'' @ userAgent i"

definition signinRequest :: request where
  "signinRequest = emptyRequest\<lparr>requestMethod := js ''POST'',
     pathname := js ''/signin/password_signin''\<rparr>"

definition noParse :: parser where
  "noParse s = None"

text \<open>The error responses: a status and the JSON body \<open>{"error": reason}\<close>.\<close>

definition errorResponse :: "nat \<Rightarrow> jsstring \<Rightarrow> response" where
  "errorResponse st reason =
     \<lparr>status = st, responseBody = JSON_stringify [(js ''error'', reason)],
      responseHeaders = [''content-type'' \<mapsto> js ''application/json''],
      cookies = Map.empty\<rparr>"

text \<open>The substrings a form field must not contain.\<close>

definition denylist :: "jsstring list" where
  "denylist = [js ''script'', js ''<'', js ''>'', js ''${'', js ''eval('']"

definition textPlainRequest :: request where
  "textPlainRequest = signinRequest\<lparr>headers := [''content-type'' \<mapsto> js ''text/plain'']\<rparr>"

text \<open>What it takes for the credential checks to pass: two string fields of the right shape.\<close>

definition validCredentials :: "heap \<Rightarrow> jsval \<Rightarrow> bool" where
  "validCredentials h v \<longleftrightarrow>
     (case (getProperty h v (js ''email''), getProperty h v (js ''password'')) of
        (Returned (JString e), Returned (JString p)) \<Rightarrow>
          regex_test emailRegex e \<and> 8 \<le> length p \<and> length p \<le> 100
      | _ \<Rightarrow> False)"

definition credentialsText :: jsstring where
  \<open>credentialsText = js ''{"email":"a@b.com","password":"12345678"}''\<close>

definition credentialsHeap :: heap where
  "credentialsHeap a =
     (if a = 0 then [(js ''email'', JString (js ''a@b.com'')),
                     (js ''password'', JString (js ''12345678''))]
      else [])"

definition shortPasswordText :: jsstring where
  \<open>shortPasswordText = js ''{"email":"a@b.com","password":"1234567"}''\<close>

definition shortPasswordHeap :: heap where
  "shortPasswordHeap a =
     (if a = 0 then [(js ''email'', JString (js ''a@b.com'')),
                     (js ''password'', JString (js ''1234567''))]
      else [])"

definition depth3Text :: jsstring where
  \<open>depth3Text = js ''{"email":"a@b.com","password":"12345678","a":{"b":{"c":{"d":1}}}}''\<close>

definition depth3Heap :: heap where
  "depth3Heap a =
     (if a = 0 then [(js ''email'', JString (js ''a@b.com'')),
                     (js ''password'', JString (js ''12345678'')),
                     (js ''a'', JRef 1)]
      else if a = 1 then [(js ''b'', JRef 2)]
      else if a = 2 then [(js ''c'', JRef 3)]
      else if a = 3 then [(js ''d'', JNumber 1)]
      else [])"

definition depth4Text :: jsstring where
  \<open>depth4Text = js ''{"email":"a@b.com","password":"12345678","a":{"b":{"c":{"d":{}}}}}''\<close>

definition depth4Heap :: heap where
  "depth4Heap a =
     (if a = 0 then [(js ''email'', JString (js ''a@b.com'')),
                     (js ''password'', JString (js ''12345678'')),
                     (js ''a'', JRef 1)]
      else if a = 1 then [(js ''b'', JRef 2)]
      else if a = 2 then [(js ''c'', JRef 3)]
      else if a = 3 then [(js ''d'', JRef 4)]
      else [])"

text \<open>\<open>const o = {}; o.self = o\<close>\<close>

definition cyclicHeap :: heap where
  "cyclicHeap a = (if a = 0 then [(js ''self'', JRef 0)] else [])"

text \<open>A parser that knows the sample texts.\<close>

definition sampleParse :: parser where
  "sampleParse s =
     (if s = credentialsText then Some (credentialsHeap, JRef 0)
      else if s = shortPasswordText then Some (shortPasswordHeap, JRef 0)
      else if s = depth3Text then Some (depth3Heap, JRef 0)
      else if s = depth4Text then Some (depth4Heap, JRef 0)
      else None)"

definition jsonRequest :: "jsstring \<Rightarrow> request" where
  "jsonRequest raw = signinRequest\<lparr>headers := [''content-type'' \<mapsto> js ''application/json''],
     bodyText := raw\<rparr>"

definition declaredRequest :: "jsstring \<Rightarrow> request" where
  "declaredRequest declared = signinRequest\<lparr>headers :=
     [''content-type'' \<mapsto> js ''application/json'', ''content-length'' \<mapsto> declared]\<rparr>"

definition formRequest :: "jsstring \<Rightarrow> request" where
  "formRequest field = signinRequest\<lparr>headers :=
       [''content-type'' \<mapsto> js ''application/x-www-form-urlencoded''],
     formEntries := Some [(js ''email'', FormString field)]\<rparr>"

definition manyFieldsRequest :: request where
  "manyFieldsRequest = signinRequest\<lparr>headers :=
       [''content-type'' \<mapsto> js ''application/x-www-form-urlencoded''],
     formEntries := Some (replicate 11 (js ''f'', FormString (js ''v'')))\<rparr>"

definition loopbackChainRequest :: request where
  "loopbackChainRequest = emptyRequest\<lparr>headers := [''x-forwarded-for'' \<mapsto> js ''::1, 10.0.0.5'']\<rparr>"

definition proxyChainRequest :: request where
  "proxyChainRequest = emptyRequest\<lparr>headers :=
     [''x-forwarded-for'' \<mapsto> js ''203.0.113.7, 10.0.0.5'', ''x-real-ip'' \<mapsto> js ''::1'']\<rparr>"

definition realIpRequest :: request where
  "realIpRequest = emptyRequest\<lparr>headers := [''x-real-ip'' \<mapsto> js ''::1'']\<rparr>"

section \<open>Properties\<close>

subsection \<open>Strings\<close>

lemmas string_eval = js_def includes_js_def startsWith_def sublist_Cons_right

lemma js_nonempty [simp]: "js (c # cs) \<noteq> []"
  by (simp add: js_def)

lemma orElse_Some [simp]: "s \<noteq> [] \<Longrightarrow> orElse (Some s) d = s"
  by (simp add: orElse_def truthy_def)

lemma includes_js_Nil [simp]: "\<not> includes_js [] (js (c # cs))"
  by (simp add: includes_js_def js_def)

text \<open>What \<open>split(',')[0]\<close>, \<open>trim\<close> and \<open>parseInt\<close> compute.\<close>

lemma split_first_token:
  "sep \<notin> set (split_first sep s)
   \<and> (split_first sep s = s \<or> (\<exists>rest. s = split_first sep s @ sep # rest))"
proof -
  have "sep \<notin> set (takeWhile (\<lambda>c. c \<noteq> sep) s)"
    by (auto dest: set_takeWhileD)
  moreover have "takeWhile (\<lambda>c. c \<noteq> sep) s = s
      \<or> (\<exists>rest. s = takeWhile (\<lambda>c. c \<noteq> sep) s @ sep # rest)"
  proof (cases "dropWhile (\<lambda>c. c \<noteq> sep) s")
    case Nil
    then have "takeWhile (\<lambda>c. c \<noteq> sep) s = s"
      using takeWhile_dropWhile_id[of "\<lambda>c. c \<noteq> sep" s] by simp
    then show ?thesis ..
  next
    case (Cons a rest)
    then have "a = sep" using hd_dropWhile[of "\<lambda>c. c \<noteq> sep" s] by auto
    with Cons have "s = takeWhile (\<lambda>c. c \<noteq> sep) s @ sep # rest"
      using takeWhile_dropWhile_id[of "\<lambda>c. c \<noteq> sep" s] by simp
    then show ?thesis by blast
  qed
  ultimately show ?thesis by (simp add: split_first_def)
qed

lemma trim_strips:
  "\<exists>pre post. s = pre @ trim s @ post
     \<and> (\<forall>c \<in> set pre. isWhiteSpace c) \<and> (\<forall>c \<in> set post. isWhiteSpace c)"
proof -
  let ?t = "dropWhile isWhiteSpace s"
  have a: "s = takeWhile isWhiteSpace s @ ?t" by simp
  have "rev ?t = takeWhile isWhiteSpace (rev ?t) @ dropWhile isWhiteSpace (rev ?t)" by simp
  then have "?t = rev (dropWhile isWhiteSpace (rev ?t)) @ rev (takeWhile isWhiteSpace (rev ?t))"
    by (metis rev_append rev_rev_ident)
  then have b: "?t = trim s @ rev (takeWhile isWhiteSpace (rev ?t))"
    by (simp add: trim_def)
  have "s = takeWhile isWhiteSpace s @ trim s @ rev (takeWhile isWhiteSpace (rev ?t))"
    using a b by metis
  moreover have "\<forall>c \<in> set (takeWhile isWhiteSpace s). isWhiteSpace c"
    by (auto dest: set_takeWhileD)
  moreover have "\<forall>c \<in> set (rev (takeWhile isWhiteSpace (rev ?t))). isWhiteSpace c"
    by (auto dest: set_takeWhileD)
  ultimately show ?thesis by blast
qed

lemma trim_ends:
  assumes "trim s \<noteq> []"
  shows "\<not> isWhiteSpace (hd (trim s)) \<and> \<not> isWhiteSpace (last (trim s))"
proof -
  let ?t = "dropWhile isWhiteSpace s"
  let ?u = "dropWhile isWhiteSpace (rev ?t)"
  from assms have u: "?u \<noteq> []" by (simp add: trim_def)
  then have l: "\<not> isWhiteSpace (hd ?u)" by (rule hd_dropWhile)
  then have "\<not> isWhiteSpace (last (trim s))"
    using u by (simp add: trim_def last_rev)
  moreover have "\<not> isWhiteSpace (hd (trim s))"
  proof -
    have "?t \<noteq> []"
    proof
      assume e: "?t = []"
      have "?u = []" unfolding e by simp
      with u show False ..
    qed
    then have h: "\<not> isWhiteSpace (hd ?t)" by (rule hd_dropWhile)
    have "rev ?t = takeWhile isWhiteSpace (rev ?t) @ ?u" by simp
    then have "?t = rev ?u @ rev (takeWhile isWhiteSpace (rev ?t))"
      by (metis rev_append rev_rev_ident)
    moreover from u have "rev ?u \<noteq> []" by simp
    ultimately have "hd ?t = hd (rev ?u)" by (metis hd_append2)
    with h show ?thesis by (simp add: trim_def)
  qed
  ultimately show ?thesis by simp
qed

lemma isDigit_not_space: "isDigit c \<Longrightarrow> \<not> isWhiteSpace c \<and> c \<noteq> 0x2D \<and> c \<noteq> 0x2B"
  by (auto simp: isDigit_def isWhiteSpace_def word_le_nat_alt)

lemma parseInt_digits:
  assumes "ds \<noteq> []" and "\<forall>c \<in> set ds. isDigit c"
  shows "parseInt ds = Some (int (digitsValue ds))"
proof -
  from assms obtain c cs where ds: "ds = c # cs" by (cases ds) auto
  with assms(2) have c: "isDigit c" by simp
  have t: "dropWhile isWhiteSpace ds = ds"
    using ds c isDigit_not_space by simp
  have neg: "(case ds of c # _ \<Rightarrow> c = 0x2D | [] \<Rightarrow> False) = False"
    using ds c isDigit_not_space[of c] by simp
  have u: "(case ds of c # r \<Rightarrow> if c = 0x2D \<or> c = 0x2B then r else ds | [] \<Rightarrow> ds) = ds"
    using ds c isDigit_not_space[of c] by simp
  have tw: "takeWhile isDigit ds = ds"
    using assms(2) by simp
  show ?thesis
    unfolding parseInt_def Let_def t neg u tw using assms(1) by simp
qed

subsection \<open>Regular expressions\<close>

text \<open>
  The matcher decides membership in the set of matched strings, and the email pattern
  matches exactly the strings \<open>local@domain.tld\<close> with three non-empty parts free of
  white space and \<open>@\<close> (the domain and the last part may contain further dots).
\<close>

lemma matched_CatI: "u \<in> matched r \<Longrightarrow> v \<in> matched s \<Longrightarrow> u @ v \<in> matched (Cat r s)"
  by auto

lemma matched_Cat_iff:
  "w \<in> matched (Cat r s) \<longleftrightarrow> (\<exists>u v. w = u @ v \<and> u \<in> matched r \<and> v \<in> matched s)"
  by auto

lemma matched_Class_iff: "w \<in> matched (Class p) \<longleftrightarrow> (\<exists>c. w = [c] \<and> p c)"
  by auto

lemma nullable_matched: "nullable r \<longleftrightarrow> [] \<in> matched r"
  by (induction r) (auto intro: repeats.none)

lemma repeats_Cons:
  "c # w \<in> repeats A \<longleftrightarrow> (\<exists>u v. w = u @ v \<and> c # u \<in> A \<and> v \<in> repeats A)"
proof
  assume "c # w \<in> repeats A"
  then show "\<exists>u v. w = u @ v \<and> c # u \<in> A \<and> v \<in> repeats A"
  proof (induction "c # w" rule: repeats.induct)
    case (more u v)
    show ?case
    proof (cases u)
      case Nil
      with more show ?thesis by simp
    next
      case (Cons a u')
      with more.hyps(1,2,4) show ?thesis by auto
    qed
  qed
next
  assume "\<exists>u v. w = u @ v \<and> c # u \<in> A \<and> v \<in> repeats A"
  then obtain u v where "w = u @ v" "c # u \<in> A" "v \<in> repeats A" by blast
  then show "c # w \<in> repeats A"
    using repeats.more[of "c # u" A v] by simp
qed

lemma matched_deriv: "w \<in> matched (deriv c r) \<longleftrightarrow> c # w \<in> matched r"
proof (induction r arbitrary: w)
  case (Cat r s)
  show ?case
  proof
    assume "w \<in> matched (deriv c (Cat r s))"
    then consider u v where "w = u @ v" "u \<in> matched (deriv c r)" "v \<in> matched s"
      | "nullable r" "w \<in> matched (deriv c s)"
      by (auto split: if_splits)
    then show "c # w \<in> matched (Cat r s)"
    proof cases
      case 1
      then have "c # u \<in> matched r" using Cat.IH(1) by simp
      then have "(c # u) @ v \<in> matched (Cat r s)" using 1(3) by (rule matched_CatI)
      with 1 show ?thesis by simp
    next
      case 2
      then have "[] \<in> matched r" "c # w \<in> matched s"
        using Cat.IH(2) nullable_matched by simp_all
      then have "[] @ (c # w) \<in> matched (Cat r s)" by (rule matched_CatI)
      then show ?thesis by simp
    qed
  next
    assume "c # w \<in> matched (Cat r s)"
    then obtain u v where uv: "c # w = u @ v" "u \<in> matched r" "v \<in> matched s" by auto
    show "w \<in> matched (deriv c (Cat r s))"
    proof (cases u)
      case Nil
      with uv have "nullable r" "w \<in> matched (deriv c s)"
        using Cat.IH(2) nullable_matched by simp_all
      then show ?thesis by simp
    next
      case (Cons a u')
      with uv have w: "w = u' @ v" and "u' \<in> matched (deriv c r)"
        using Cat.IH(1) by simp_all
      then have "u' @ v \<in> matched (Cat (deriv c r) s)" using uv(3) by (intro matched_CatI)
      with w show ?thesis by simp
    qed
  qed
next
  case (Star r)
  then show ?case by (auto simp: repeats_Cons)
qed auto

lemma regex_test_matched: "regex_test r w \<longleftrightarrow> w \<in> matched r"
  by (induction w arbitrary: r) (simp_all add: nullable_matched matched_deriv)

lemma repeats_Class: "repeats {[c] | c. p c} = {w. \<forall>c \<in> set w. p c}"
proof (intro set_eqI iffI)
  fix w assume "w \<in> repeats {[c] | c. p c}"
  then show "w \<in> {w. \<forall>c \<in> set w. p c}"
    by (induction rule: repeats.induct) auto
next
  fix w assume "w \<in> {w. \<forall>c \<in> set w. p c}"
  then have "\<forall>c \<in> set w. p c" by simp
  then show "w \<in> repeats {[c] | c. p c}"
  proof (induction w)
    case Nil
    show ?case by (rule repeats.none)
  next
    case (Cons a w)
    then have "[a] \<in> {[c] | c. p c}" "w \<in> repeats {[c] | c. p c}" by simp_all
    then have "[a] @ w \<in> repeats {[c] | c. p c}" by (rule repeats.more)
    then show ?case by simp
  qed
qed

lemma matched_OneOrMore_Class:
  "w \<in> matched (OneOrMore (Class p)) \<longleftrightarrow> w \<noteq> [] \<and> (\<forall>c \<in> set w. p c)"
proof -
  have "w \<in> matched (OneOrMore (Class p)) \<longleftrightarrow>
      (\<exists>c v. w = c # v \<and> p c \<and> (\<forall>x \<in> set v. p x))"
    unfolding OneOrMore_def matched_Cat_iff matched_Class_iff matched.simps(6) matched.simps(3)
      repeats_Class
    by (auto simp: Cons_eq_append_conv intro: exI[of _ "[_]"])
  also have "\<dots> \<longleftrightarrow> w \<noteq> [] \<and> (\<forall>c \<in> set w. p c)"
    by (cases w) auto
  finally show ?thesis .
qed

lemma emailRegex_shape:
  "regex_test emailRegex s \<longleftrightarrow>
     (\<exists>local domain tld. s = local @ [0x40] @ domain @ [0x2E] @ tld
        \<and> local \<noteq> [] \<and> domain \<noteq> [] \<and> tld \<noteq> []
        \<and> (\<forall>c \<in> set (local @ domain @ tld). \<not> isWhiteSpace c \<and> c \<noteq> 0x40))"
proof -
  let ?P = "matched (OneOrMore (Class notSpaceOrAt))"
  have "regex_test emailRegex s \<longleftrightarrow>
      (\<exists>l d t. s = l @ [0x40] @ d @ [0x2E] @ t \<and> l \<in> ?P \<and> d \<in> ?P \<and> t \<in> ?P)"
    unfolding regex_test_matched emailRegex_def
    by (simp only: matched_Cat_iff matched_Class_iff) blast
  also have "\<dots> \<longleftrightarrow>
     (\<exists>local domain tld. s = local @ [0x40] @ domain @ [0x2E] @ tld
        \<and> local \<noteq> [] \<and> domain \<noteq> [] \<and> tld \<noteq> []
        \<and> (\<forall>c \<in> set (local @ domain @ tld). \<not> isWhiteSpace c \<and> c \<noteq> 0x40))"
    unfolding matched_OneOrMore_Class notSpaceOrAt_def
    by (simp only: set_append ball_Un) blast
  finally show ?thesis .
qed

subsection \<open>Nesting depth\<close>

text \<open>A call that answers \<open>false\<close> leaves the shared \<open>visited\<close> set as it found it.\<close>

lemma check_restores:
  "\<not> fst (checkNestingDepth h obj depth visited) \<Longrightarrow>
     snd (checkNestingDepth h obj depth visited) = visited"
  "\<not> fst (checkProperties h ps depth visited) \<Longrightarrow>
     snd (checkProperties h ps depth visited) = visited"
proof (induction h obj depth visited and h ps depth visited
       rule: checkNestingDepth_checkProperties.induct)
  case (1 h obj depth visited)
  then show ?case
    by (auto simp: checkNestingDepth.simps[of h obj depth visited]
             split: jsval.splits prod.splits bool.splits if_splits)
next
  case (2 h depth visited)
  then show ?case by simp
next
  case (3 h key v rest depth visited)
  show ?case
  proof (cases "isObject v")
    case False
    with 3 show ?thesis by simp
  next
    case True
    obtain r vis' where c: "checkNestingDepth h v (depth + 1) visited = (r, vis')"
      by (cases "checkNestingDepth h v (depth + 1) visited")
    with 3 True show ?thesis
      by (cases r) auto
  qed
qed

lemma nests_down: "nests h v (Suc n) \<Longrightarrow> nests h v n"
proof (induction n arbitrary: v)
  case 0
  then show ?case by (auto simp: isObject_def split: jsval.splits)
next
  case (Suc n)
  then show ?case by (cases v) (auto simp del: nests.simps(2) simp add: nests.simps(2)[of _ _ "Suc n"] nests.simps(2)[of _ "JRef _" n])
qed

lemma nests_isObject: "nests h v n \<Longrightarrow> isObject v"
  by (cases n) (auto simp: isObject_def split: jsval.splits)

lemma nests_Suc_Ref: "nests h (JRef a) (Suc n) \<longleftrightarrow> (\<exists>p \<in> set (h a). nests h (snd p) n)"
  by simp

lemma reaches_child: "reaches h u (JRef a) \<Longrightarrow> (k, v) \<in> set (h a) \<Longrightarrow> reaches h u v"
  by (induction u "JRef a" rule: reaches.induct) (auto intro: reaches.intros)

lemma reaches_nests: "reaches h a v \<Longrightarrow> nests h v n \<Longrightarrow> nests h (JRef a) (Suc n)"
proof (induction a v rule: reaches.induct)
  case (child k v a)
  then show ?case by force
next
  case (step k b a v)
  then have "nests h (JRef b) (Suc n)" by simp
  then have "nests h (JRef b) n" by (rule nests_down)
  with step.hyps(1) show ?case by force
qed

lemma cycle_nests: "reaches h a (JRef a) \<Longrightarrow> nests h (JRef a) n"
proof (induction n)
  case 0
  then show ?case by (simp add: isObject_def)
next
  case (Suc n)
  then show ?case by (simp only: reaches_nests)
qed

lemma check_sound:
  "fst (checkNestingDepth h obj depth visited) \<Longrightarrow> depth \<le> MAX_NESTING_DEPTH \<Longrightarrow>
     (\<forall>u \<in> visited. reaches h u obj) \<Longrightarrow> nests h obj (Suc MAX_NESTING_DEPTH - depth)"
  "fst (checkProperties h ps depth visited) \<Longrightarrow>
     (\<forall>u \<in> visited. \<forall>p \<in> set ps. reaches h u (snd p)) \<Longrightarrow>
     \<exists>p \<in> set ps. nests h (snd p) (MAX_NESTING_DEPTH - depth)"
proof (induction h obj depth visited and h ps depth visited
       rule: checkNestingDepth_checkProperties.induct)
  case (1 h obj depth visited)
  from "1.prems"(1,2) obtain a where obj: "obj = JRef a"
    by (cases obj) (auto simp: checkNestingDepth.simps[of h _ depth visited])
  show ?case
  proof (cases "a \<in> visited")
    case True
    with "1.prems"(3) obj have "reaches h a (JRef a)" by simp
    then show ?thesis unfolding obj by (rule cycle_nests)
  next
    case False
    from "1.prems"(1,2) obj False
    have t: "fst (checkProperties h (h a) depth (insert a visited))"
      by (auto simp: checkNestingDepth.simps[of h _ depth visited]
               split: prod.splits bool.splits)
    have inv: "\<forall>u \<in> insert a visited. \<forall>p \<in> set (h a). reaches h u (snd p)"
    proof (intro ballI)
      fix u p assume u: "u \<in> insert a visited" and p: "p \<in> set (h a)"
      then have p': "(fst p, snd p) \<in> set (h a)" by simp
      show "reaches h u (snd p)"
      proof (cases "u = a")
        case True
        with reaches.child[of "fst p" "snd p" h a] p show ?thesis by simp
      next
        case False
        with u "1.prems"(3) obj have "reaches h u (JRef a)" by simp
        then show ?thesis using p' by (rule reaches_child)
      qed
    qed
    from "1.IH"[OF _ obj False t inv] "1.prems"(2)
    have "\<exists>p \<in> set (h a). nests h (snd p) (MAX_NESTING_DEPTH - depth)" by simp
    moreover from "1.prems"(2)
    have "Suc MAX_NESTING_DEPTH - depth = Suc (MAX_NESTING_DEPTH - depth)" by simp
    ultimately show ?thesis unfolding obj by (simp only: nests_Suc_Ref)
  qed
next
  case (2 h depth visited)
  then show ?case by simp
next
  case (3 h key v rest depth visited)
  show ?case
  proof (cases "isObject v")
    case False
    with "3.prems" have "fst (checkProperties h rest depth visited)" by simp
    moreover from "3.prems"(2)
    have "\<forall>u \<in> visited. \<forall>p \<in> set rest. reaches h u (snd p)" by simp
    ultimately have "\<exists>p \<in> set rest. nests h (snd p) (MAX_NESTING_DEPTH - depth)"
      using "3.IH"(3)[OF False] by blast
    then show ?thesis by auto
  next
    case True
    obtain r vis' where c: "checkNestingDepth h v (depth + 1) visited = (r, vis')"
      by (cases "checkNestingDepth h v (depth + 1) visited")
    show ?thesis
    proof (cases r)
      case True
      note r = this
      have "nests h v (MAX_NESTING_DEPTH - depth)"
      proof (cases "depth + 1 \<le> MAX_NESTING_DEPTH")
        case True
        from "3.prems"(2) have "\<forall>u \<in> visited. reaches h u v" by simp
        with "3.IH"(1)[OF \<open>isObject v\<close> _ True] c r
        have "nests h v (Suc MAX_NESTING_DEPTH - (depth + 1))" by simp
        then show ?thesis by simp
      next
        case False
        then have "MAX_NESTING_DEPTH - depth = 0" by simp
        with \<open>isObject v\<close> show ?thesis by simp
      qed
      then show ?thesis by auto
    next
      case False
      then have rF: "r = False" by simp
      from False c check_restores(1)[of h v "depth + 1" visited] have vis': "vis' = visited"
        by simp
      from "3.prems"(1) True c False have "fst (checkProperties h rest depth vis')"
        by simp
      moreover from "3.prems"(2) vis'
      have "\<forall>u \<in> vis'. \<forall>p \<in> set rest. reaches h u (snd p)" by simp
      ultimately have "\<exists>p \<in> set rest. nests h (snd p) (MAX_NESTING_DEPTH - depth)"
        using "3.IH"(2)[OF True c[symmetric] rF] by blast
      then show ?thesis by auto
    qed
  qed
qed

lemma check_complete:
  "nests h obj (Suc MAX_NESTING_DEPTH - depth) \<Longrightarrow>
     fst (checkNestingDepth h obj depth visited)"
  "\<exists>p \<in> set ps. nests h (snd p) (MAX_NESTING_DEPTH - depth) \<Longrightarrow>
     fst (checkProperties h ps depth visited)"
proof (induction h obj depth visited and h ps depth visited
       rule: checkNestingDepth_checkProperties.induct)
  case (1 h obj depth visited)
  show ?case
  proof (cases "depth > MAX_NESTING_DEPTH")
    case True
    then show ?thesis by (simp add: checkNestingDepth.simps[of h _ depth visited])
  next
    case False
    then have eq: "Suc MAX_NESTING_DEPTH - depth = Suc (MAX_NESTING_DEPTH - depth)" by simp
    from "1.prems" obtain a where obj: "obj = JRef a"
      unfolding eq by (cases obj) auto
    show ?thesis
    proof (cases "a \<in> visited")
      case True
      with obj False show ?thesis
        by (simp add: checkNestingDepth.simps[of h _ depth visited])
    next
      case nin: False
      from "1.prems" have "\<exists>p \<in> set (h a). nests h (snd p) (MAX_NESTING_DEPTH - depth)"
        unfolding eq obj by (simp only: nests_Suc_Ref)
      then have "fst (checkProperties h (h a) depth (insert a visited))"
        by (rule "1.IH"[OF False obj nin])
      with obj False nin show ?thesis
        by (auto simp: checkNestingDepth.simps[of h _ depth visited]
                 split: prod.splits bool.splits)
    qed
  qed
next
  case (2 h depth visited)
  then show ?case by simp
next
  case (3 h key v rest depth visited)
  show ?case
  proof (cases "isObject v")
    case False
    then have "\<not> nests h v (MAX_NESTING_DEPTH - depth)" using nests_isObject by blast
    with "3.prems" have "\<exists>p \<in> set rest. nests h (snd p) (MAX_NESTING_DEPTH - depth)" by auto
    then have "fst (checkProperties h rest depth visited)" by (rule "3.IH"(3)[OF False])
    with False show ?thesis by simp
  next
    case True
    obtain r vis' where c: "checkNestingDepth h v (depth + 1) visited = (r, vis')"
      by (cases "checkNestingDepth h v (depth + 1) visited")
    show ?thesis
    proof (cases r)
      case True
      with c \<open>isObject v\<close> show ?thesis by simp
    next
      case False
      then have rF: "r = False" by simp
      have "\<not> nests h v (MAX_NESTING_DEPTH - depth)"
      proof
        assume "nests h v (MAX_NESTING_DEPTH - depth)"
        then have "nests h v (Suc MAX_NESTING_DEPTH - (depth + 1))" by simp
        then have "fst (checkNestingDepth h v (depth + 1) visited)"
          by (rule "3.IH"(1)[OF True])
        with c False show False by simp
      qed
      with "3.prems" have "\<exists>p \<in> set rest. nests h (snd p) (MAX_NESTING_DEPTH - depth)"
        by auto
      then have "fst (checkProperties h rest depth vis')"
        by (rule "3.IH"(2)[OF True c[symmetric] rF])
      with True c False show ?thesis by simp
    qed
  qed
qed

lemma checkNestingDepth_iff:
  "fst (checkNestingDepth h obj 0 {}) \<longleftrightarrow> nests h obj (Suc MAX_NESTING_DEPTH)"
  using check_sound(1)[of h obj 0 "{}"] check_complete(1)[of h obj 0 "{}"] by auto

subsection \<open>Rate limiter\<close>

text \<open>
  C1. On a path that contains \<open>/api\<close> and neither exempted substring, the stage asks the
  sliding-window limiter (capacity 300, window 60) about the resolved client address.
  When the limiter answers \<open>success = false\<close>, the stage returns status 429 with the
  JSON body \<open>{"error":"Too many requests"}\<close> whatever \<open>next\<close> is, so \<open>next\<close> is not
  invoked; when it answers \<open>success = true\<close>, the stage returns what \<open>next\<close> returns.
\<close>

theorem withRateLimit_protected:
  assumes "includes_js (pathname request) (js ''/api'')"
    and "\<not> includes_js (pathname request) (js ''/api/webhooks'')"
    and "\<not> includes_js (pathname request) (js ''/api/trpc/explorer.getExplorerData'')"
    and "slidingWindow 300 60 (getIpAddress request) w = (Returned success, w')"
  shows "withRateLimit slidingWindow next request event w =
           (if success then next request event w'
            else (Returned (NextResponse
                    \<lparr>status = 429,
                     responseBody = JSON_stringify [(js ''error'', js ''Too many requests'')],
                     responseHeaders = [''content-type'' \<mapsto> js ''application/json''],
                     cookies = Map.empty\<rparr>), w'))"
  using assms by (simp add: withRateLimit_def ratelimit_def jsonResponse_def)

theorem withRateLimit_protected_witness:
  "withRateLimit countingLimiter okHandler apiRequest () 300 =
     (Returned (NextResponse
        \<lparr>status = 429,
         responseBody = JSON_stringify [(js ''error'', js ''Too many requests'')],
         responseHeaders = [''content-type'' \<mapsto> js ''application/json''],
         cookies = Map.empty\<rparr>), 301)
   \<and> withRateLimit countingLimiter okHandler apiRequest () 299 = okHandler apiRequest () 300"
proof -
  have p: "includes_js (pathname apiRequest) (js ''/api'')"
    and q: "\<not> includes_js (pathname apiRequest) (js ''/api/webhooks'')"
    and r: "\<not> includes_js (pathname apiRequest) (js ''/api/trpc/explorer.getExplorerData'')"
    by (simp_all add: apiRequest_def emptyRequest_def string_eval)
  have d: "countingLimiter 300 60 (getIpAddress apiRequest) 300 = (Returned False, 301)"
    and a: "countingLimiter 300 60 (getIpAddress apiRequest) 299 = (Returned True, 300)"
    by (simp_all add: countingLimiter_def)
  show ?thesis
    using withRateLimit_protected[of apiRequest countingLimiter 300 False 301 okHandler "()"]
      withRateLimit_protected[of apiRequest countingLimiter 299 True 300 okHandler "()"]
      p q r d a
    by simp
qed

text \<open>
  C5. On a path that contains \<open>/api/webhooks\<close> or \<open>/api/trpc/explorer.getExplorerData\<close>
  the stage is \<open>next\<close>, whatever the limiter is: the store is not consulted and its
  state is not changed, so no such request is answered 429 by this stage.
\<close>

theorem withRateLimit_exempt:
  assumes "includes_js (pathname request) (js ''/api/webhooks'')
           \<or> includes_js (pathname request) (js ''/api/trpc/explorer.getExplorerData'')"
  shows "withRateLimit slidingWindow next request event w = next request event w"
  using assms by (auto simp: withRateLimit_def)

theorem withRateLimit_exempt_witness:
  "withRateLimit denyingLimiter okHandler webhookRequest () 1000 = okHandler webhookRequest () 1000"
proof -
  have "includes_js (pathname webhookRequest) (js ''/api/webhooks'')"
    by (simp add: webhookRequest_def emptyRequest_def string_eval)
  then show ?thesis
    using withRateLimit_exempt[of webhookRequest denyingLimiter okHandler "()" 1000] by simp
qed

subsection \<open>Client address\<close>

text \<open>
  C4 as stated fails: a forwarded-chain header that is present but empty is skipped, and
  the resolver goes on to the real-IP header.
\<close>

theorem getIpAddress_empty_header_counterexample:
  "headers emptyForwardedRequest ''x-forwarded-for'' = Some []
   \<and> getIpAddress_spec emptyForwardedRequest = []
   \<and> getIpAddress emptyForwardedRequest = js ''10.0.0.1''
   \<and> getIpAddress emptyForwardedRequest \<noteq> getIpAddress_spec emptyForwardedRequest"
  by (simp add: emptyForwardedRequest_def emptyRequest_def getIpAddress_def
        getIpAddress_spec_def truthy_def trim_def split_first_def js_def)

text \<open>
  C4, amended. The resolver reads only the two headers, and a header counts when it is
  present and not empty: it returns the trimmed first comma-separated token of a
  non-empty \<open>x-forwarded-for\<close>, otherwise a non-empty \<open>x-real-ip\<close>, otherwise
  \<open>127.0.0.1\<close>; in the first two cases \<open>::1\<close> becomes \<open>127.0.0.1\<close>. The three examples
  of the claim hold.
\<close>

theorem getIpAddress_resolution:
  "(\<forall>f. headers request ''x-forwarded-for'' = Some f \<and> f \<noteq> [] \<longrightarrow>
        getIpAddress request =
          (if trim (split_first 0x2C f) = js ''::1'' then js ''127.0.0.1''
           else trim (split_first 0x2C f)))
   \<and> (\<forall>r. (headers request ''x-forwarded-for'' = None \<or> headers request ''x-forwarded-for'' = Some [])
           \<and> headers request ''x-real-ip'' = Some r \<and> r \<noteq> [] \<longrightarrow>
        getIpAddress request = (if r = js ''::1'' then js ''127.0.0.1'' else r))
   \<and> ((headers request ''x-forwarded-for'' = None \<or> headers request ''x-forwarded-for'' = Some [])
        \<and> (headers request ''x-real-ip'' = None \<or> headers request ''x-real-ip'' = Some []) \<longrightarrow>
        getIpAddress request = js ''127.0.0.1'')
   \<and> (headers request ''x-forwarded-for'' = Some (js ''::1, 10.0.0.5'') \<longrightarrow>
        getIpAddress request = js ''127.0.0.1'')
   \<and> (headers request ''x-forwarded-for'' = Some (js ''203.0.113.7, 10.0.0.5'') \<longrightarrow>
        getIpAddress request = js ''203.0.113.7'')
   \<and> (\<forall>request' :: request. headers request' ''x-forwarded-for'' = headers request ''x-forwarded-for''
           \<and> headers request' ''x-real-ip'' = headers request ''x-real-ip'' \<longrightarrow>
        getIpAddress request' = getIpAddress request)"
proof (intro conjI allI impI)
  fix f
  assume "headers request ''x-forwarded-for'' = Some f \<and> f \<noteq> []"
  then show "getIpAddress request =
          (if trim (split_first 0x2C f) = js ''::1'' then js ''127.0.0.1''
           else trim (split_first 0x2C f))"
    by (simp add: getIpAddress_def truthy_def Let_def)
next
  fix r
  assume "(headers request ''x-forwarded-for'' = None \<or> headers request ''x-forwarded-for'' = Some [])
           \<and> headers request ''x-real-ip'' = Some r \<and> r \<noteq> []"
  then show "getIpAddress request = (if r = js ''::1'' then js ''127.0.0.1'' else r)"
    by (auto simp add: getIpAddress_def truthy_def Let_def)
next
  assume "(headers request ''x-forwarded-for'' = None \<or> headers request ''x-forwarded-for'' = Some [])
        \<and> (headers request ''x-real-ip'' = None \<or> headers request ''x-real-ip'' = Some [])"
  then show "getIpAddress request = js ''127.0.0.1''"
    by (auto simp add: getIpAddress_def truthy_def Let_def)
next
  assume "headers request ''x-forwarded-for'' = Some (js ''::1, 10.0.0.5'')"
  then show "getIpAddress request = js ''127.0.0.1''"
    by (simp add: getIpAddress_def truthy_def trim_def split_first_def js_def isWhiteSpace_def)
next
  assume "headers request ''x-forwarded-for'' = Some (js ''203.0.113.7, 10.0.0.5'')"
  then show "getIpAddress request = js ''203.0.113.7''"
    by (simp add: getIpAddress_def truthy_def trim_def split_first_def js_def isWhiteSpace_def)
next
  fix request' :: request
  assume "headers request' ''x-forwarded-for'' = headers request ''x-forwarded-for''
           \<and> headers request' ''x-real-ip'' = headers request ''x-real-ip''"
  then show "getIpAddress request' = getIpAddress request"
    by (simp add: getIpAddress_def)
qed

theorem getIpAddress_resolution_witness:
  "getIpAddress loopbackChainRequest = js ''127.0.0.1''
   \<and> getIpAddress proxyChainRequest = js ''203.0.113.7''
   \<and> getIpAddress realIpRequest = js ''127.0.0.1''
   \<and> getIpAddress emptyForwardedRequest = js ''10.0.0.1''
   \<and> getIpAddress emptyRequest = js ''127.0.0.1''
   \<and> getIpAddress (emptyRequest\<lparr>pathname := js ''/api''\<rparr>) = getIpAddress emptyRequest"
proof -
  have h1: "headers loopbackChainRequest ''x-forwarded-for'' = Some (js ''::1, 10.0.0.5'')"
    by (simp add: loopbackChainRequest_def emptyRequest_def)
  have h2: "headers proxyChainRequest ''x-forwarded-for'' = Some (js ''203.0.113.7, 10.0.0.5'')"
    by (simp add: proxyChainRequest_def emptyRequest_def)
  have h3: "headers realIpRequest ''x-forwarded-for'' = None"
      "headers realIpRequest ''x-real-ip'' = Some (js ''::1'')" "js ''::1'' \<noteq> []"
    by (simp_all add: realIpRequest_def emptyRequest_def)
  have h4: "headers emptyForwardedRequest ''x-forwarded-for'' = Some []"
      "headers emptyForwardedRequest ''x-real-ip'' = Some (js ''10.0.0.1'')"
      "js ''10.0.0.1'' \<noteq> []"
    by (simp_all add: emptyForwardedRequest_def emptyRequest_def)
  have h5: "headers emptyRequest ''x-forwarded-for'' = None"
      "headers emptyRequest ''x-real-ip'' = None"
    by (simp_all add: emptyRequest_def)
  have h6: "headers (emptyRequest\<lparr>pathname := js ''/api''\<rparr>) ''x-forwarded-for'' =
        headers emptyRequest ''x-forwarded-for''"
      "headers (emptyRequest\<lparr>pathname := js ''/api''\<rparr>) ''x-real-ip'' =
        headers emptyRequest ''x-real-ip''"
    by simp_all
  from getIpAddress_resolution[of loopbackChainRequest] h1
  have a: "getIpAddress loopbackChainRequest = js ''127.0.0.1''" by blast
  from getIpAddress_resolution[of proxyChainRequest] h2
  have b: "getIpAddress proxyChainRequest = js ''203.0.113.7''" by blast
  from getIpAddress_resolution[of realIpRequest] h3
  have "getIpAddress realIpRequest =
      (if js ''::1'' = js ''::1'' then js ''127.0.0.1'' else js ''::1'')" by blast
  then have c: "getIpAddress realIpRequest = js ''127.0.0.1''" by simp
  from getIpAddress_resolution[of emptyForwardedRequest] h4
  have "getIpAddress emptyForwardedRequest =
      (if js ''10.0.0.1'' = js ''::1'' then js ''127.0.0.1'' else js ''10.0.0.1'')" by blast
  then have d: "getIpAddress emptyForwardedRequest = js ''10.0.0.1''" by (simp add: js_def)
  from getIpAddress_resolution[of emptyRequest] h5
  have e: "getIpAddress emptyRequest = js ''127.0.0.1''" by blast
  from getIpAddress_resolution[of emptyRequest] h6
  have f: "getIpAddress (emptyRequest\<lparr>pathname := js ''/api''\<rparr>) = getIpAddress emptyRequest"
    by blast
  from a b c d e f show ?thesis by simp
qed

subsection \<open>Fingerprint\<close>

text \<open>
  C2. On a path that starts with neither \<open>/signin/signup\<close> nor \<open>/auth/callback\<close>, the
  handler awaits \<open>next\<close> and, when \<open>next\<close> resolves, resolves to \<open>undefined\<close>: the
  response \<open>next\<close> produced is dropped. (When \<open>next\<close> rejects, so does the handler.)
\<close>

theorem withFingerPrinting_other_paths:
  assumes "\<not> startsWith (pathname req) (js ''/signin/signup'')"
    and "\<not> startsWith (pathname req) (js ''/auth/callback'')"
  shows "withFingerPrinting generateFingerprint next req event w =
           (case next req event w of
              (Returned res, w') \<Rightarrow> (Returned ResultUndefined, w')
            | (Thrown e, w') \<Rightarrow> (Thrown e, w'))"
  using assms
  by (simp add: withFingerPrinting_def split: prod.splits outcome.splits)

theorem withFingerPrinting_other_paths_witness:
  "withFingerPrinting joinFingerprint okHandler dashboardRequest () 7 = (Returned ResultUndefined, 7)
   \<and> okHandler dashboardRequest () 7 = (Returned (NextResponse (jsonResponse [] 200)), 7)"
proof -
  have "\<not> startsWith (pathname dashboardRequest) (js ''/signin/signup'')"
    and "\<not> startsWith (pathname dashboardRequest) (js ''/auth/callback'')"
    by (simp_all add: dashboardRequest_def emptyRequest_def string_eval)
  then show ?thesis
    using withFingerPrinting_other_paths[of dashboardRequest joinFingerprint okHandler "()" 7]
    by (simp add: okHandler_def)
qed

text \<open>
  C10. The cookie \<open>sf_rsint\<close> (not HTTP-only, same-site \<open>lax\<close>, max age 2592000, path
  \<open>/\<close>) is attached exactly when the path starts with \<open>/signin/signup\<close> or
  \<open>/auth/callback\<close> and \<open>next\<close> resolved to a \<open>NextResponse\<close>; the rest of that response
  is kept. On such a path any other result of \<open>next\<close> is handed back untouched, and on
  every other path what the stage hands back carries no \<open>sf_rsint\<close> cookie.
\<close>

theorem withFingerPrinting_cookie:
  "(startsWith (pathname req) (js ''/signin/signup'') \<or> startsWith (pathname req) (js ''/auth/callback'')
      \<longrightarrow> next req event w = (Returned (NextResponse r), w')
      \<longrightarrow> (\<exists>r'. withFingerPrinting generateFingerprint next req event w = (Returned (NextResponse r'), w')
            \<and> cookies r' (js ''sf_rsint'') =
                Some \<lparr>cookieValue = generateFingerprint
                        \<lparr>ip = orElse (map_option (\<lambda>f. trim (split_first 0x2C f))
                                 (headers req ''x-forwarded-for'')) (js ''unknown''),
                         userAgent = orElse (headers req ''user-agent'') (js ''unknown''),
                         language = truthy (headers req ''accept-language'')\<rparr>,
                      httpOnly = False, sameSite = js ''lax'',
                      maxAge = 2592000, cookiePath = js ''/''\<rparr>
            \<and> (\<forall>name. name \<noteq> js ''sf_rsint'' \<longrightarrow> cookies r' name = cookies r name)
            \<and> status r' = status r \<and> responseBody r' = responseBody r
            \<and> responseHeaders r' = responseHeaders r))
   \<and> (startsWith (pathname req) (js ''/signin/signup'') \<or> startsWith (pathname req) (js ''/auth/callback'')
      \<longrightarrow> next req event w = (Returned res, w') \<longrightarrow> (\<forall>r. res \<noteq> NextResponse r)
      \<longrightarrow> withFingerPrinting generateFingerprint next req event w = (Returned res, w'))
   \<and> (\<not> startsWith (pathname req) (js ''/signin/signup'') \<longrightarrow> \<not> startsWith (pathname req) (js ''/auth/callback'')
      \<longrightarrow> next req event w = (Returned res, w')
      \<longrightarrow> (\<exists>res'. withFingerPrinting generateFingerprint next req event w = (Returned res', w')
            \<and> cookiesOf res' (js ''sf_rsint'') = None))"
  by (auto simp: withFingerPrinting_def cookiesOf_def Let_def split: result.splits)

theorem withFingerPrinting_cookie_witness:
  "(\<exists>r'. withFingerPrinting joinFingerprint okHandler signupRequest () 7 = (Returned (NextResponse r'), 7)
        \<and> (\<exists>fp. cookies r' (js ''sf_rsint'') =
             Some \<lparr>cookieValue = joinFingerprint fp, httpOnly = False, sameSite = js ''lax'',
                   maxAge = 2592000, cookiePath = js ''/''\<rparr>))
   \<and> withFingerPrinting joinFingerprint plainHandler signupRequest () 7 = plainHandler signupRequest () 7
   \<and> (\<exists>res'. withFingerPrinting joinFingerprint okHandler dashboardRequest () 7 = (Returned res', 7)
        \<and> cookiesOf res' (js ''sf_rsint'') = None)"
proof -
  have s: "startsWith (pathname signupRequest) (js ''/signin/signup'')"
    by (simp add: signupRequest_def emptyRequest_def string_eval)
  have d: "\<not> startsWith (pathname dashboardRequest) (js ''/signin/signup'')"
      "\<not> startsWith (pathname dashboardRequest) (js ''/auth/callback'')"
    by (simp_all add: dashboardRequest_def emptyRequest_def string_eval)
  have ok: "okHandler signupRequest () 7 = (Returned (NextResponse (jsonResponse [] 200)), 7)"
      "okHandler dashboardRequest () 7 = (Returned (NextResponse (jsonResponse [] 200)), 7)"
    by (simp_all add: okHandler_def)
  have pl: "plainHandler signupRequest () 7 =
      (Returned (PlainResponse \<lparr>status = 200, responseBody = NoBody,
        responseHeaders = Map.empty, cookies = Map.empty\<rparr>), 7)"
    by (simp add: plainHandler_def)
  from withFingerPrinting_cookie[of signupRequest okHandler "()" 7 "jsonResponse [] 200" 7
      joinFingerprint] s ok(1)
  have a: "\<exists>r'. withFingerPrinting joinFingerprint okHandler signupRequest () 7 = (Returned (NextResponse r'), 7)
        \<and> (\<exists>fp. cookies r' (js ''sf_rsint'') =
             Some \<lparr>cookieValue = joinFingerprint fp, httpOnly = False, sameSite = js ''lax'',
                   maxAge = 2592000, cookiePath = js ''/''\<rparr>)"
    by blast
  from withFingerPrinting_cookie[of signupRequest plainHandler "()" 7 _ 7 joinFingerprint
      "PlainResponse \<lparr>status = 200, responseBody = NoBody,
        responseHeaders = Map.empty, cookies = Map.empty\<rparr>"] s pl
  have b: "withFingerPrinting joinFingerprint plainHandler signupRequest () 7 = plainHandler signupRequest () 7"
    by simp
  from withFingerPrinting_cookie[of dashboardRequest okHandler "()" 7 _ 7 joinFingerprint
      "NextResponse (jsonResponse [] 200)"] d ok(2)
  have c: "\<exists>res'. withFingerPrinting joinFingerprint okHandler dashboardRequest () 7 = (Returned res', 7)
        \<and> cookiesOf res' (js ''sf_rsint'') = None"
    by blast
  from a b c show ?thesis by blast
qed

subsection \<open>Payload validator\<close>

lemma withSecurityChecks_checked:
  assumes "pathname request = js ''/signin/password_signin''"
    and "requestMethod request = js ''POST''"
    and "includes_js (orElse (headers request ''content-type'') []) (js ''application/json'')
         \<or> includes_js (orElse (headers request ''content-type'') []) (js ''application/x-www-form-urlencoded'')
         \<or> includes_js (orElse (headers request ''content-type'') []) (js ''multipart/form-data'')"
  shows "withSecurityChecks JSON_parse next request event w =
    (case raceChecks JSON_parse request (orElse (headers request ''content-type'') []) of
       Thrown message \<Rightarrow>
         (Returned (NextResponse (errorResponse
            (if orElse (Some message) (js ''Request processing failed'') = js ''Payload too large''
             then 413 else 400)
            (orElse (Some message) (js ''Request processing failed'')))), w)
     | Returned u \<Rightarrow> next request event w)"
  using assms
  by (auto simp: withSecurityChecks_def Let_def jsonResponse_def errorResponse_def
           split: outcome.splits)

text \<open>
  C9. A POST to \<open>/signin/password_signin\<close> whose content-type header is absent or
  includes none of \<open>application/json\<close>, \<open>application/x-www-form-urlencoded\<close> and
  \<open>multipart/form-data\<close> is answered 415 with \<open>{"error":"Unsupported content type"}\<close>,
  whatever \<open>next\<close> is and with the outside state untouched: \<open>next\<close> is not invoked.
\<close>

theorem withSecurityChecks_unsupported_content_type:
  assumes "pathname request = js ''/signin/password_signin''"
    and "requestMethod request = js ''POST''"
    and "\<forall>contentType. headers request ''content-type'' = Some contentType \<longrightarrow>
           \<not> includes_js contentType (js ''application/json'')
           \<and> \<not> includes_js contentType (js ''application/x-www-form-urlencoded'')
           \<and> \<not> includes_js contentType (js ''multipart/form-data'')"
  shows "withSecurityChecks JSON_parse next request event w =
           (Returned (NextResponse
              \<lparr>status = 415,
               responseBody = JSON_stringify [(js ''error'', js ''Unsupported content type'')],
               responseHeaders = [''content-type'' \<mapsto> js ''application/json''],
               cookies = Map.empty\<rparr>), w)"
proof -
  let ?ct = "orElse (headers request ''content-type'') []"
  from assms(3) have "\<not> includes_js ?ct (js ''application/json'')
      \<and> \<not> includes_js ?ct (js ''application/x-www-form-urlencoded'')
      \<and> \<not> includes_js ?ct (js ''multipart/form-data'')"
    by (cases "headers request ''content-type''") (auto simp: orElse_def truthy_def)
  with assms(1,2) show ?thesis
    by (simp add: withSecurityChecks_def Let_def jsonResponse_def)
qed

theorem withSecurityChecks_unsupported_content_type_witness:
  "withSecurityChecks noParse okHandler textPlainRequest () 0 =
     (Returned (NextResponse
        \<lparr>status = 415,
         responseBody = JSON_stringify [(js ''error'', js ''Unsupported content type'')],
         responseHeaders = [''content-type'' \<mapsto> js ''application/json''],
         cookies = Map.empty\<rparr>), 0)"
proof -
  have "pathname textPlainRequest = js ''/signin/password_signin''"
    and "requestMethod textPlainRequest = js ''POST''"
    by (simp_all add: textPlainRequest_def signinRequest_def emptyRequest_def)
  moreover have "\<forall>contentType. headers textPlainRequest ''content-type'' = Some contentType \<longrightarrow>
           \<not> includes_js contentType (js ''application/json'')
           \<and> \<not> includes_js contentType (js ''application/x-www-form-urlencoded'')
           \<and> \<not> includes_js contentType (js ''multipart/form-data'')"
    by (simp add: textPlainRequest_def signinRequest_def emptyRequest_def string_eval)
  ultimately show ?thesis
    by (rule withSecurityChecks_unsupported_content_type)
qed

lemma raceChecks_declared:
  assumes "exceeds (parseInt (orElse (headers request ''content-length'') (js ''0''))) MAX_PAYLOAD_SIZE"
  shows "raceChecks JSON_parse request contentType = Thrown (js ''Payload too large'')"
  using assms by (simp add: raceChecks_def)

lemma raceChecks_json:
  assumes "\<not> exceeds (parseInt (orElse (headers request ''content-length'') (js ''0''))) MAX_PAYLOAD_SIZE"
    and "includes_js contentType (js ''application/json'')"
    and "\<not> timerFiresFirst request"
  shows "raceChecks JSON_parse request contentType = validateJson JSON_parse (bodyText request)"
  using assms by (simp add: raceChecks_def)

lemma raceChecks_form:
  assumes "\<not> exceeds (parseInt (orElse (headers request ''content-length'') (js ''0''))) MAX_PAYLOAD_SIZE"
    and "\<not> includes_js contentType (js ''application/json'')"
    and "includes_js contentType (js ''application/x-www-form-urlencoded'')
         \<or> includes_js contentType (js ''multipart/form-data'')"
    and "\<not> timerFiresFirst request"
  shows "raceChecks JSON_parse request contentType = validateForm (formEntries request)"
  using assms by (auto simp add: raceChecks_def)

lemma includes_js_nonempty: "includes_js s (js (c # cs)) \<Longrightarrow> s \<noteq> []"
  by (auto simp: includes_js_def js_def)

lemma contentType_orElse:
  assumes "headers request ''content-type'' = Some contentType"
    and "includes_js contentType (js ''application/json'')
         \<or> includes_js contentType (js ''application/x-www-form-urlencoded'')
         \<or> includes_js contentType (js ''multipart/form-data'')"
  shows "orElse (headers request ''content-type'') [] = contentType"
  using assms by (auto simp: orElse_def truthy_def dest: includes_js_nonempty)

lemma withSecurityChecks_race:
  assumes "pathname request = js ''/signin/password_signin''"
    and "requestMethod request = js ''POST''"
    and "headers request ''content-type'' = Some contentType"
    and "includes_js contentType (js ''application/json'')
         \<or> includes_js contentType (js ''application/x-www-form-urlencoded'')
         \<or> includes_js contentType (js ''multipart/form-data'')"
  shows "withSecurityChecks JSON_parse next request event w =
    (case raceChecks JSON_parse request contentType of
       Thrown message \<Rightarrow>
         (Returned (NextResponse (errorResponse
            (if orElse (Some message) (js ''Request processing failed'') = js ''Payload too large''
             then 413 else 400)
            (orElse (Some message) (js ''Request processing failed'')))), w)
     | Returned u \<Rightarrow> next request event w)"
  using withSecurityChecks_checked[OF assms(1,2), of JSON_parse "next" event w]
    contentType_orElse[OF assms(3,4)] assms(4)
  by simp

lemma reject_413:
  "(case Thrown (js ''Payload too large'') of
       Thrown message \<Rightarrow>
         (Returned (NextResponse (errorResponse
            (if orElse (Some message) (js ''Request processing failed'') = js ''Payload too large''
             then 413 else 400)
            (orElse (Some message) (js ''Request processing failed'')))), w)
     | Returned u \<Rightarrow> k) =
   (Returned (NextResponse (errorResponse 413 (js ''Payload too large''))), w)"
  by simp

lemmas request_eval = signinRequest_def emptyRequest_def jsonRequest_def declaredRequest_def
  formRequest_def

lemmas parse_eval = parseInt_def exceeds_def isWhiteSpace_def isDigit_def digitsValue_def
  MAX_PAYLOAD_SIZE_def orElse_def truthy_def js_def

lemmas heap_eval = credentialsHeap_def shortPasswordHeap_def depth3Heap_def depth4Heap_def
  cyclicHeap_def getProperty_def isObject_def

lemmas text_eval = credentialsText_def shortPasswordText_def depth3Text_def depth4Text_def

lemmas regex_eval = emailRegex_def OneOrMore_def notSpaceOrAt_def isWhiteSpace_def

lemma jsonRequest_facts:
  "pathname (jsonRequest raw) = js ''/signin/password_signin''"
  "requestMethod (jsonRequest raw) = js ''POST''"
  "headers (jsonRequest raw) ''content-type'' = Some (js ''application/json'')"
  "includes_js (js ''application/json'') (js ''application/json'')"
  "\<not> exceeds (parseInt (orElse (headers (jsonRequest raw) ''content-length'') (js ''0'')))
           MAX_PAYLOAD_SIZE"
  "\<not> timerFiresFirst (jsonRequest raw)"
  "bodyText (jsonRequest raw) = raw"
  by (simp_all add: request_eval parse_eval includes_js_def)

lemma includes_js_subset: "includes_js s d \<Longrightarrow> set d \<subseteq> set s"
  by (auto simp: includes_js_def sublist_def)

lemma formRequest_facts:
  "pathname (formRequest field) = js ''/signin/password_signin''"
  "requestMethod (formRequest field) = js ''POST''"
  "headers (formRequest field) ''content-type'' = Some (js ''application/x-www-form-urlencoded'')"
  "\<not> includes_js (js ''application/x-www-form-urlencoded'') (js ''application/json'')"
  "includes_js (js ''application/x-www-form-urlencoded'') (js ''application/x-www-form-urlencoded'')
   \<or> includes_js (js ''application/x-www-form-urlencoded'') (js ''multipart/form-data'')"
  "\<not> exceeds (parseInt (orElse (headers (formRequest field) ''content-length'') (js ''0'')))
           MAX_PAYLOAD_SIZE"
  "\<not> timerFiresFirst (formRequest field)"
  "formEntries (formRequest field) = Some [(js ''email'', FormString field)]"
  by (simp_all add: request_eval parse_eval includes_js_def sublist_Cons_right)

text \<open>
  C6. For a POST to \<open>/signin/password_signin\<close> with an accepted content type: when the
  content-length header parses to a number above 500000, the answer is 413 with
  \<open>{"error":"Payload too large"}\<close> whatever the body text, the form data and the timer
  are, so the body plays no part; and on the JSON branch, when the declared length passed
  and the body was read before the timer fired, a text longer than 500000 code units is
  answered 413 as well.
\<close>

theorem withSecurityChecks_payload_too_large:
  assumes "pathname request = js ''/signin/password_signin''"
    and "requestMethod request = js ''POST''"
    and "headers request ''content-type'' = Some contentType"
    and "includes_js contentType (js ''application/json'')
         \<or> includes_js contentType (js ''application/x-www-form-urlencoded'')
         \<or> includes_js contentType (js ''multipart/form-data'')"
  shows "(\<forall>declared n. headers request ''content-length'' = Some declared
            \<and> parseInt declared = Some n \<and> n > 500000 \<longrightarrow>
            (\<forall>raw form timer.
               withSecurityChecks JSON_parse next
                 (request\<lparr>bodyText := raw, formEntries := form, timerFiresFirst := timer\<rparr>)
                 event w =
               (Returned (NextResponse
                  \<lparr>status = 413,
                   responseBody = JSON_stringify [(js ''error'', js ''Payload too large'')],
                   responseHeaders = [''content-type'' \<mapsto> js ''application/json''],
                   cookies = Map.empty\<rparr>), w)))
       \<and> (includes_js contentType (js ''application/json'')
            \<and> \<not> exceeds (parseInt (orElse (headers request ''content-length'') (js ''0'')))
                  MAX_PAYLOAD_SIZE
            \<and> \<not> timerFiresFirst request
            \<and> length (bodyText request) > 500000 \<longrightarrow>
            withSecurityChecks JSON_parse next request event w =
              (Returned (NextResponse
                 \<lparr>status = 413,
                  responseBody = JSON_stringify [(js ''error'', js ''Payload too large'')],
                  responseHeaders = [''content-type'' \<mapsto> js ''application/json''],
                  cookies = Map.empty\<rparr>), w))"
proof (intro conjI allI impI)
  fix declared n raw form timer
  assume d: "headers request ''content-length'' = Some declared
            \<and> parseInt declared = Some n \<and> n > 500000"
  let ?r = "request\<lparr>bodyText := raw, formEntries := form, timerFiresFirst := timer\<rparr>"
  from d have "declared \<noteq> []" by (auto simp: parseInt_def)
  with d have "exceeds (parseInt (orElse (headers ?r ''content-length'') (js ''0''))) MAX_PAYLOAD_SIZE"
    by (simp add: exceeds_def MAX_PAYLOAD_SIZE_def)
  then have "raceChecks JSON_parse ?r contentType = Thrown (js ''Payload too large'')"
    by (rule raceChecks_declared)
  moreover have "withSecurityChecks JSON_parse next ?r event w =
    (case raceChecks JSON_parse ?r contentType of
       Thrown message \<Rightarrow>
         (Returned (NextResponse (errorResponse
            (if orElse (Some message) (js ''Request processing failed'') = js ''Payload too large''
             then 413 else 400)
            (orElse (Some message) (js ''Request processing failed'')))), w)
     | Returned u \<Rightarrow> next ?r event w)"
    using assms by (intro withSecurityChecks_race) simp_all
  ultimately show "withSecurityChecks JSON_parse next ?r event w =
               (Returned (NextResponse
                  \<lparr>status = 413,
                   responseBody = JSON_stringify [(js ''error'', js ''Payload too large'')],
                   responseHeaders = [''content-type'' \<mapsto> js ''application/json''],
                   cookies = Map.empty\<rparr>), w)"
    by (simp add: errorResponse_def)
next
  assume b: "includes_js contentType (js ''application/json'')
            \<and> \<not> exceeds (parseInt (orElse (headers request ''content-length'') (js ''0'')))
                  MAX_PAYLOAD_SIZE
            \<and> \<not> timerFiresFirst request
            \<and> length (bodyText request) > 500000"
  then have "raceChecks JSON_parse request contentType = validateJson JSON_parse (bodyText request)"
    by (intro raceChecks_json) simp_all
  moreover from b have "validateJson JSON_parse (bodyText request) = Thrown (js ''Payload too large'')"
    by (simp add: validateJson_def MAX_PAYLOAD_SIZE_def)
  ultimately show "withSecurityChecks JSON_parse next request event w =
              (Returned (NextResponse
                 \<lparr>status = 413,
                  responseBody = JSON_stringify [(js ''error'', js ''Payload too large'')],
                  responseHeaders = [''content-type'' \<mapsto> js ''application/json''],
                  cookies = Map.empty\<rparr>), w)"
    using withSecurityChecks_race[OF assms, of JSON_parse "next" event w]
    by (simp add: errorResponse_def)
qed

theorem withSecurityChecks_payload_too_large_witness:
  "withSecurityChecks noParse okHandler
     ((declaredRequest (js ''600000''))\<lparr>bodyText := credentialsText, formEntries := None,
        timerFiresFirst := True\<rparr>) () 0 =
     (Returned (NextResponse
        \<lparr>status = 413,
         responseBody = JSON_stringify [(js ''error'', js ''Payload too large'')],
         responseHeaders = [''content-type'' \<mapsto> js ''application/json''],
         cookies = Map.empty\<rparr>), 0)
   \<and> withSecurityChecks noParse okHandler
       ((declaredRequest (js ''10''))\<lparr>bodyText := replicate 500001 0x20\<rparr>) () 0 =
     (Returned (NextResponse
        \<lparr>status = 413,
         responseBody = JSON_stringify [(js ''error'', js ''Payload too large'')],
         responseHeaders = [''content-type'' \<mapsto> js ''application/json''],
         cookies = Map.empty\<rparr>), 0)"
proof -
  let ?big = "declaredRequest (js ''600000'')"
  let ?liar = "(declaredRequest (js ''10''))\<lparr>bodyText := replicate 500001 0x20\<rparr>"
  have big: "pathname ?big = js ''/signin/password_signin''" "requestMethod ?big = js ''POST''"
      "headers ?big ''content-type'' = Some (js ''application/json'')"
      "headers ?big ''content-length'' = Some (js ''600000'')"
    by (simp_all add: request_eval)
  have liar: "pathname ?liar = js ''/signin/password_signin''" "requestMethod ?liar = js ''POST''"
      "headers ?liar ''content-type'' = Some (js ''application/json'')"
      "\<not> timerFiresFirst ?liar" "length (bodyText ?liar) > 500000"
    by (simp_all add: request_eval)
  have inc: "includes_js (js ''application/json'') (js ''application/json'')"
    by (simp add: includes_js_def)
  have p: "parseInt (js ''600000'') = Some 600000"
    by (simp add: parse_eval)
  have q: "\<not> exceeds (parseInt (orElse (headers ?liar ''content-length'') (js ''0''))) MAX_PAYLOAD_SIZE"
    by (simp add: request_eval parse_eval)
  from withSecurityChecks_payload_too_large[OF big(1,2,3), of noParse okHandler "()" 0]
    inc big(4) p
  have a: "withSecurityChecks noParse okHandler
     (?big\<lparr>bodyText := credentialsText, formEntries := None, timerFiresFirst := True\<rparr>) () 0 =
     (Returned (NextResponse
        \<lparr>status = 413,
         responseBody = JSON_stringify [(js ''error'', js ''Payload too large'')],
         responseHeaders = [''content-type'' \<mapsto> js ''application/json''],
         cookies = Map.empty\<rparr>), 0)"
    by simp
  from withSecurityChecks_payload_too_large[OF liar(1,2,3), of noParse okHandler "()" 0]
    inc q liar(4,5)
  have b: "withSecurityChecks noParse okHandler ?liar () 0 =
     (Returned (NextResponse
        \<lparr>status = 413,
         responseBody = JSON_stringify [(js ''error'', js ''Payload too large'')],
         responseHeaders = [''content-type'' \<mapsto> js ''application/json''],
         cookies = Map.empty\<rparr>), 0)"
    by simp
  from a b show ?thesis by simp
qed

lemma depth_bound_iff: "fst (checkNestingDepth h v 0 {}) \<longleftrightarrow> nests h v 4"
  using checkNestingDepth_iff[of h v] by (simp add: MAX_NESTING_DEPTH_def eval_nat_numeral)

lemma validateJson_parsed:
  assumes "length rawText \<le> MAX_PAYLOAD_SIZE"
    and "JSON_parse rawText = Some (h, body)"
    and "\<not> nests h body 4"
  shows "validateJson JSON_parse rawText =
    (case getProperty h body (js ''email'') of
       Thrown e \<Rightarrow> Thrown e
     | Returned email \<Rightarrow>
         if falsy email then Thrown (js ''Invalid credentials format'')
         else (case getProperty h body (js ''password'') of
           Thrown e \<Rightarrow> Thrown e
         | Returned password \<Rightarrow>
             if falsy password \<or> typeof email \<noteq> ''string'' \<or> typeof password \<noteq> ''string''
             then Thrown (js ''Invalid credentials format'')
             else if \<not> regex_test emailRegex (stringOf email)
             then Thrown (js ''Invalid email format'')
             else if length (stringOf password) < 8 \<or> length (stringOf password) > 100
             then Thrown (js ''Invalid password length'')
             else Returned ()))"
  using assms by (simp add: validateJson_def depth_bound_iff)

lemma regex_test_Nil: "\<not> regex_test emailRegex []"
  by (simp add: emailRegex_def OneOrMore_def)

lemma nullPropertyMessage_nonempty: "nullPropertyMessage key \<noteq> []"
  by (simp add: nullPropertyMessage_def js_def)

lemma nullPropertyMessage_not_large: "nullPropertyMessage key \<noteq> js ''Payload too large''"
  by (simp add: nullPropertyMessage_def js_def)

lemma js_literal_distinct [simp]:
  "js ''Invalid credentials format'' \<noteq> js ''Payload too large''"
  "js ''Invalid email format'' \<noteq> js ''Payload too large''"
  "js ''Invalid password length'' \<noteq> js ''Payload too large''"
  "js ''Payload structure too complex'' \<noteq> js ''Payload too large''"
  "js ''Invalid form data'' \<noteq> js ''Payload too large''"
  by (simp_all add: js_def)

lemma validCredentials_iff:
  "validCredentials h body \<longleftrightarrow>
     (\<exists>e p. getProperty h body (js ''email'') = Returned (JString e)
               \<and> getProperty h body (js ''password'') = Returned (JString p)
               \<and> regex_test emailRegex e \<and> 8 \<le> length p \<and> length p \<le> 100)"
proof (cases "getProperty h body (js ''email'')")
  case (Thrown e)
  then show ?thesis by (simp add: validCredentials_def)
next
  case email: (Returned email)
  show ?thesis
  proof (cases "getProperty h body (js ''password'')")
    case (Thrown e)
    with email show ?thesis by (simp add: validCredentials_def split: jsval.splits)
  next
    case (Returned password)
    with email show ?thesis
      by (cases email; cases password) (simp_all add: validCredentials_def)
  qed
qed

lemma validateJson_accepts:
  assumes "length rawText \<le> MAX_PAYLOAD_SIZE"
    and "JSON_parse rawText = Some (h, body)"
    and "\<not> nests h body 4"
    and "validCredentials h body"
  shows "validateJson JSON_parse rawText = Returned ()"
proof -
  from assms(4) obtain e p
    where e: "getProperty h body (js ''email'') = Returned (JString e)"
      and p: "getProperty h body (js ''password'') = Returned (JString p)"
      and re: "regex_test emailRegex e" and len: "8 \<le> length p" "length p \<le> 100"
    unfolding validCredentials_iff by blast
  from re have "e \<noteq> []" using regex_test_Nil by auto
  moreover from len have "p \<noteq> []" by auto
  ultimately show ?thesis
    unfolding validateJson_parsed[of rawText JSON_parse h body, OF assms(1-3)]
    using e p re len by (simp add: falsy_def typeof_def stringOf_def)
qed

lemma validateJson_rejects:
  assumes "length rawText \<le> MAX_PAYLOAD_SIZE"
    and "JSON_parse rawText = Some (h, body)"
    and "\<not> nests h body 4"
    and "\<not> validCredentials h body"
  shows "\<exists>reason \<in> {js ''Invalid credentials format'', js ''Invalid email format'',
            js ''Invalid password length'', nullPropertyMessage (js ''email'')}.
           validateJson JSON_parse rawText = Thrown reason"
proof (cases "getProperty h body (js ''email'')")
  case (Thrown e)
  then have "e = nullPropertyMessage (js ''email'')"
    by (auto simp: getProperty_def split: jsval.splits)
  with Thrown show ?thesis
    unfolding validateJson_parsed[of rawText JSON_parse h body, OF assms(1-3)] by simp
next
  case email: (Returned email)
  show ?thesis
  proof (cases "getProperty h body (js ''password'')")
    case (Thrown e)
    with email have False by (auto simp: getProperty_def split: jsval.splits)
    then show ?thesis ..
  next
    case (Returned password)
    have bad: "\<not> (\<exists>e p. email = JString e \<and> password = JString p \<and> regex_test emailRegex e
                 \<and> 8 \<le> length p \<and> length p \<le> 100)"
      using assms(4) email Returned unfolding validCredentials_iff by simp
    have "validateJson JSON_parse rawText \<in> Thrown ` {js ''Invalid credentials format'',
            js ''Invalid email format'', js ''Invalid password length''}"
      unfolding validateJson_parsed[of rawText JSON_parse h body, OF assms(1-3)] email Returned
      using bad
      by (cases email; cases password) (auto simp add: falsy_def typeof_def stringOf_def)
    then show ?thesis by auto

  qed
qed

text \<open>
  C7. For a POST to \<open>/signin/password_signin\<close> with JSON content, the declared and the
  actual size within the bound, the body read before the timer fired, the text parsed
  and nesting within depth 3: the stage is \<open>next\<close> when the top-level value has string
  fields \<open>email\<close> and \<open>password\<close>, the email matches the pattern and the password has 8
  to 100 code units; in every other case it answers 400 with one of four reasons and does
  not invoke \<open>next\<close>.
\<close>

theorem withSecurityChecks_json_credentials:
  assumes "pathname request = js ''/signin/password_signin''"
    and "requestMethod request = js ''POST''"
    and "headers request ''content-type'' = Some contentType"
    and "includes_js contentType (js ''application/json'')"
    and "\<not> exceeds (parseInt (orElse (headers request ''content-length'') (js ''0'')))
           MAX_PAYLOAD_SIZE"
    and "\<not> timerFiresFirst request"
    and "length (bodyText request) \<le> 500000"
    and "JSON_parse (bodyText request) = Some (h, body)"
    and "\<not> nests h body 4"
  shows "if (\<exists>e p. getProperty h body (js ''email'') = Returned (JString e)
               \<and> getProperty h body (js ''password'') = Returned (JString p)
               \<and> regex_test emailRegex e \<and> 8 \<le> length p \<and> length p \<le> 100)
         then withSecurityChecks JSON_parse next request event w = next request event w
         else (\<exists>reason \<in> {js ''Invalid credentials format'', js ''Invalid email format'',
                  js ''Invalid password length'', nullPropertyMessage (js ''email'')}.
                 withSecurityChecks JSON_parse next request event w =
                   (Returned (NextResponse
                      \<lparr>status = 400,
                       responseBody = JSON_stringify [(js ''error'', reason)],
                       responseHeaders = [''content-type'' \<mapsto> js ''application/json''],
                       cookies = Map.empty\<rparr>), w))"
proof -
  have size: "length (bodyText request) \<le> MAX_PAYLOAD_SIZE"
    using assms(7) by (simp add: MAX_PAYLOAD_SIZE_def)
  have valid: "(\<exists>e p. getProperty h body (js ''email'') = Returned (JString e)
               \<and> getProperty h body (js ''password'') = Returned (JString p)
               \<and> regex_test emailRegex e \<and> 8 \<le> length p \<and> length p \<le> 100)
             \<longleftrightarrow> validCredentials h body"
    by (rule validCredentials_iff[symmetric])
  have race: "raceChecks JSON_parse request contentType =
      validateJson JSON_parse (bodyText request)"
    using assms(5,4,6) by (rule raceChecks_json)
  have stage: "withSecurityChecks JSON_parse next request event w =
    (case validateJson JSON_parse (bodyText request) of
       Thrown message \<Rightarrow>
         (Returned (NextResponse (errorResponse
            (if orElse (Some message) (js ''Request processing failed'') = js ''Payload too large''
             then 413 else 400)
            (orElse (Some message) (js ''Request processing failed'')))), w)
     | Returned u \<Rightarrow> next request event w)"
    using withSecurityChecks_race[OF assms(1,2,3), of JSON_parse "next" event w] assms(4) race
    by simp
  show ?thesis
  proof (cases "validCredentials h body")
    case True
    from validateJson_accepts[of "bodyText request" JSON_parse h body, OF size assms(8,9) True]
    have "withSecurityChecks JSON_parse next request event w = next request event w"
      unfolding stage by simp
    with True show ?thesis unfolding valid by simp
  next
    case False
    from validateJson_rejects[of "bodyText request" JSON_parse h body, OF size assms(8,9) False]
    obtain reason where r: "reason \<in> {js ''Invalid credentials format'', js ''Invalid email format'',
            js ''Invalid password length'', nullPropertyMessage (js ''email'')}"
      and t: "validateJson JSON_parse (bodyText request) = Thrown reason"
      by blast
    from r have ne: "reason \<noteq> []" and nl: "reason \<noteq> js ''Payload too large''"
      by (elim insertE emptyE; simp add: nullPropertyMessage_nonempty nullPropertyMessage_not_large)+
    from t ne nl have eq: "withSecurityChecks JSON_parse next request event w =
                   (Returned (NextResponse
                      \<lparr>status = 400,
                       responseBody = JSON_stringify [(js ''error'', reason)],
                       responseHeaders = [''content-type'' \<mapsto> js ''application/json''],
                       cookies = Map.empty\<rparr>), w)"
      unfolding stage by (simp add: errorResponse_def)
    from r eq have "\<exists>reason \<in> {js ''Invalid credentials format'', js ''Invalid email format'',
                  js ''Invalid password length'', nullPropertyMessage (js ''email'')}.
                 withSecurityChecks JSON_parse next request event w =
                   (Returned (NextResponse
                      \<lparr>status = 400,
                       responseBody = JSON_stringify [(js ''error'', reason)],
                       responseHeaders = [''content-type'' \<mapsto> js ''application/json''],
                       cookies = Map.empty\<rparr>), w)"
      by (intro bexI[of _ reason])
    moreover from False have "\<not> (\<exists>e p. getProperty h body (js ''email'') = Returned (JString e)
               \<and> getProperty h body (js ''password'') = Returned (JString p)
               \<and> regex_test emailRegex e \<and> 8 \<le> length p \<and> length p \<le> 100)"
      unfolding valid .
    ultimately show ?thesis by (simp only: if_False)
  qed
qed

theorem withSecurityChecks_json_credentials_witness:
  "withSecurityChecks sampleParse okHandler (jsonRequest credentialsText) () 0 =
     okHandler (jsonRequest credentialsText) () 0
   \<and> (\<exists>reason. withSecurityChecks sampleParse okHandler (jsonRequest shortPasswordText) () 0 =
         (Returned (NextResponse
            \<lparr>status = 400,
             responseBody = JSON_stringify [(js ''error'', reason)],
             responseHeaders = [''content-type'' \<mapsto> js ''application/json''],
             cookies = Map.empty\<rparr>), 0))"
proof -
  have len: "length (bodyText (jsonRequest credentialsText)) \<le> 500000"
      "length (bodyText (jsonRequest shortPasswordText)) \<le> 500000"
    by (simp_all add: jsonRequest_facts text_eval js_def)
  have parse: "sampleParse (bodyText (jsonRequest credentialsText)) = Some (credentialsHeap, JRef 0)"
      "sampleParse (bodyText (jsonRequest shortPasswordText)) = Some (shortPasswordHeap, JRef 0)"
    by (simp_all add: jsonRequest_facts sampleParse_def text_eval js_def)
  have flat: "\<not> nests credentialsHeap (JRef 0) 4" "\<not> nests shortPasswordHeap (JRef 0) 4"
    by (simp_all add: eval_nat_numeral heap_eval)
  have good: "\<exists>e p. getProperty credentialsHeap (JRef 0) (js ''email'') = Returned (JString e)
       \<and> getProperty credentialsHeap (JRef 0) (js ''password'') = Returned (JString p)
       \<and> regex_test emailRegex e \<and> 8 \<le> length p \<and> length p \<le> 100"
    by (simp add: heap_eval regex_eval js_def)
  have short: "\<not> (\<exists>e p. getProperty shortPasswordHeap (JRef 0) (js ''email'') = Returned (JString e)
       \<and> getProperty shortPasswordHeap (JRef 0) (js ''password'') = Returned (JString p)
       \<and> regex_test emailRegex e \<and> 8 \<le> length p \<and> length p \<le> 100)"
    by (simp add: heap_eval js_def)
  from withSecurityChecks_json_credentials[OF jsonRequest_facts(1-6) len(1), of sampleParse
      credentialsHeap "JRef 0" okHandler "()" 0, OF parse(1) flat(1)] good
  have a: "withSecurityChecks sampleParse okHandler (jsonRequest credentialsText) () 0 =
     okHandler (jsonRequest credentialsText) () 0"
    by (simp only: if_True)
  from withSecurityChecks_json_credentials[OF jsonRequest_facts(1-6) len(2), of sampleParse
      shortPasswordHeap "JRef 0" okHandler "()" 0, OF parse(2) flat(2)] short
  have b: "\<exists>reason. withSecurityChecks sampleParse okHandler (jsonRequest shortPasswordText) () 0 =
         (Returned (NextResponse
            \<lparr>status = 400,
             responseBody = JSON_stringify [(js ''error'', reason)],
             responseHeaders = [''content-type'' \<mapsto> js ''application/json''],
             cookies = Map.empty\<rparr>), 0)"
    by (simp only: if_False) (erule bexE, rule exI)
  from a b show ?thesis by (rule conjI)
qed

lemma checkFields_Returned_iff:
  "checkFields entries = Returned () \<longleftrightarrow>
     (\<forall>(key, v) \<in> set entries. \<forall>s. v = FormString s \<longrightarrow>
        length s \<le> MAX_FIELD_LENGTH \<and> \<not> (\<exists>d \<in> set denylist. includes_js s d))"
  by (induction entries rule: checkFields.induct) (auto simp: denylist_def)

lemma validateForm_Some:
  "validateForm (Some entries) =
     (if length entries > MAX_FORM_FIELDS
         \<or> (\<exists>(key, v) \<in> set entries. \<exists>s. v = FormString s \<and>
               (length s > MAX_FIELD_LENGTH \<or> (\<exists>d \<in> set denylist. includes_js s d)))
      then Thrown (js ''Invalid form data'') else Returned ())"
proof (cases "checkFields entries")
  case (Returned u)
  then have "checkFields entries = Returned ()" by simp
  then have ok: "\<forall>(key, v) \<in> set entries. \<forall>s. v = FormString s \<longrightarrow>
        length s \<le> MAX_FIELD_LENGTH \<and> \<not> (\<exists>d \<in> set denylist. includes_js s d)"
    using checkFields_Returned_iff[of entries] by blast
  then have "\<not> (\<exists>(key, v) \<in> set entries. \<exists>s. v = FormString s \<and>
               (length s > MAX_FIELD_LENGTH \<or> (\<exists>d \<in> set denylist. includes_js s d)))"
    by fastforce
  with Returned show ?thesis
    by (simp add: validateForm_def checkForm_def)
next
  case (Thrown e)
  then have "checkFields entries \<noteq> Returned ()" by simp
  then have "\<not> (\<forall>(key, v) \<in> set entries. \<forall>s. v = FormString s \<longrightarrow>
        length s \<le> MAX_FIELD_LENGTH \<and> \<not> (\<exists>d \<in> set denylist. includes_js s d))"
    using checkFields_Returned_iff[of entries] by blast
  then have "\<exists>(key, v) \<in> set entries. \<exists>s. v = FormString s \<and>
               (length s > MAX_FIELD_LENGTH \<or> (\<exists>d \<in> set denylist. includes_js s d))"
    by fastforce
  with Thrown show ?thesis
    by (simp add: validateForm_def checkForm_def)
qed

text \<open>
  Which form submissions pass. For a POST to \<open>/signin/password_signin\<close> with url-encoded
  or multipart content (and not JSON), the declared size within the bound and the form
  data read before the timer fired: more than 10 entries, a string field longer than 1000
  code units or a string field containing a denylisted substring is answered 400, and the
  body is \<open>{"error":"Invalid form data"}\<close> in each case; otherwise the stage is \<open>next\<close>.
\<close>

lemma withSecurityChecks_form_fields:
  assumes "pathname request = js ''/signin/password_signin''"
    and "requestMethod request = js ''POST''"
    and "headers request ''content-type'' = Some contentType"
    and "\<not> includes_js contentType (js ''application/json'')"
    and "includes_js contentType (js ''application/x-www-form-urlencoded'')
         \<or> includes_js contentType (js ''multipart/form-data'')"
    and "\<not> exceeds (parseInt (orElse (headers request ''content-length'') (js ''0'')))
           MAX_PAYLOAD_SIZE"
    and "\<not> timerFiresFirst request"
    and "formEntries request = Some entries"
  shows "if length entries > 10
            \<or> (\<exists>(key, v) \<in> set entries. \<exists>s. v = FormString s \<and>
                  (length s > 1000 \<or> (\<exists>d \<in> set denylist. includes_js s d)))
         then withSecurityChecks JSON_parse next request event w =
                (Returned (NextResponse
                   \<lparr>status = 400,
                    responseBody = JSON_stringify [(js ''error'', js ''Invalid form data'')],
                    responseHeaders = [''content-type'' \<mapsto> js ''application/json''],
                    cookies = Map.empty\<rparr>), w)
         else withSecurityChecks JSON_parse next request event w = next request event w"
proof -
  have race: "raceChecks JSON_parse request contentType = validateForm (Some entries)"
    using raceChecks_form[OF assms(6,4,5,7), of JSON_parse] assms(8) by simp
  have stage: "withSecurityChecks JSON_parse next request event w =
    (case validateForm (Some entries) of
       Thrown message \<Rightarrow>
         (Returned (NextResponse (errorResponse
            (if orElse (Some message) (js ''Request processing failed'') = js ''Payload too large''
             then 413 else 400)
            (orElse (Some message) (js ''Request processing failed'')))), w)
     | Returned u \<Rightarrow> next request event w)"
    using withSecurityChecks_race[OF assms(1,2,3), of JSON_parse "next" event w] assms(5) race
    by simp
  show ?thesis
    unfolding stage validateForm_Some
    by (simp add: MAX_FORM_FIELDS_def MAX_FIELD_LENGTH_def errorResponse_def)
qed

text \<open>
  A field \<open><script>\<close> is rejected, a clean field of length 999 is accepted, one of length
  1001 is rejected.
\<close>

lemma withSecurityChecks_form_fields_examples:
  "withSecurityChecks noParse okHandler (formRequest (js ''<script>'')) () 0 =
     (Returned (NextResponse
        \<lparr>status = 400,
         responseBody = JSON_stringify [(js ''error'', js ''Invalid form data'')],
         responseHeaders = [''content-type'' \<mapsto> js ''application/json''],
         cookies = Map.empty\<rparr>), 0)
   \<and> withSecurityChecks noParse okHandler (formRequest (replicate 999 0x61)) () 0 =
       okHandler (formRequest (replicate 999 0x61)) () 0
   \<and> withSecurityChecks noParse okHandler (formRequest (replicate 1001 0x61)) () 0 =
     (Returned (NextResponse
        \<lparr>status = 400,
         responseBody = JSON_stringify [(js ''error'', js ''Invalid form data'')],
         responseHeaders = [''content-type'' \<mapsto> js ''application/json''],
         cookies = Map.empty\<rparr>), 0)"
proof -
  have script: "includes_js (js ''<script>'') (js ''script'')"
    by (simp add: string_eval)
  have clean: "\<not> (\<exists>d \<in> set denylist. includes_js (replicate 999 0x61) d)"
    by (auto simp: denylist_def js_def dest!: includes_js_subset)
  have a: "withSecurityChecks noParse okHandler (formRequest (js ''<script>'')) () 0 =
     (Returned (NextResponse
        \<lparr>status = 400,
         responseBody = JSON_stringify [(js ''error'', js ''Invalid form data'')],
         responseHeaders = [''content-type'' \<mapsto> js ''application/json''],
         cookies = Map.empty\<rparr>), 0)"
    using withSecurityChecks_form_fields[OF formRequest_facts, of "js ''<script>''" noParse
        okHandler "()" 0] script
    by (simp add: denylist_def)
  have b: "withSecurityChecks noParse okHandler (formRequest (replicate 999 0x61)) () 0 =
       okHandler (formRequest (replicate 999 0x61)) () 0"
    using withSecurityChecks_form_fields[OF formRequest_facts, of "replicate 999 0x61" noParse
        okHandler "()" 0] clean
    by simp
  have c: "withSecurityChecks noParse okHandler (formRequest (replicate 1001 0x61)) () 0 =
     (Returned (NextResponse
        \<lparr>status = 400,
         responseBody = JSON_stringify [(js ''error'', js ''Invalid form data'')],
         responseHeaders = [''content-type'' \<mapsto> js ''application/json''],
         cookies = Map.empty\<rparr>), 0)"
    using withSecurityChecks_form_fields[OF formRequest_facts, of "replicate 1001 0x61" noParse
        okHandler "()" 0]
    by simp
  from a b c show ?thesis by simp
qed

text \<open>
  C8. The claim: a form submission with more than 10 fields, with a string field longer
  than 1000 characters or with a string field containing a denylisted substring is
  answered 400 with a JSON body whose \<open>error\<close> string gives the validation reason. The
  status holds, the reason does not reach the caller: the checks throw \<open>Too many form
  fields\<close>, \<open>Form field too large\<close> and \<open>Invalid form data content\<close>, and the \<open>catch\<close>
  of the same \<open>try\<close> block replaces each of them by \<open>Invalid form data\<close>. The JSON branch
  next to it has no such \<open>catch\<close> and answers with the reason it threw.
\<close>

theorem withSecurityChecks_form_reason_replaced:
  "checkForm (replicate 11 (js ''f'', FormString (js ''v''))) = Thrown (js ''Too many form fields'')
   \<and> withSecurityChecks noParse okHandler manyFieldsRequest () 0 =
       (Returned (NextResponse
          \<lparr>status = 400,
           responseBody = JSON_stringify [(js ''error'', js ''Invalid form data'')],
           responseHeaders = [''content-type'' \<mapsto> js ''application/json''],
           cookies = Map.empty\<rparr>), 0)
   \<and> checkForm [(js ''email'', FormString (replicate 1001 0x61))] =
       Thrown (js ''Form field too large'')
   \<and> withSecurityChecks noParse okHandler (formRequest (replicate 1001 0x61)) () 0 =
       (Returned (NextResponse
          \<lparr>status = 400,
           responseBody = JSON_stringify [(js ''error'', js ''Invalid form data'')],
           responseHeaders = [''content-type'' \<mapsto> js ''application/json''],
           cookies = Map.empty\<rparr>), 0)
   \<and> checkForm [(js ''email'', FormString (js ''<script>''))] =
       Thrown (js ''Invalid form data content'')
   \<and> withSecurityChecks noParse okHandler (formRequest (js ''<script>'')) () 0 =
       (Returned (NextResponse
          \<lparr>status = 400,
           responseBody = JSON_stringify [(js ''error'', js ''Invalid form data'')],
           responseHeaders = [''content-type'' \<mapsto> js ''application/json''],
           cookies = Map.empty\<rparr>), 0)
   \<and> withSecurityChecks sampleParse okHandler (jsonRequest shortPasswordText) () 0 =
       (Returned (NextResponse
          \<lparr>status = 400,
           responseBody = JSON_stringify [(js ''error'', js ''Invalid password length'')],
           responseHeaders = [''content-type'' \<mapsto> js ''application/json''],
           cookies = Map.empty\<rparr>), 0)"
proof -
  have many: "checkForm (replicate 11 (js ''f'', FormString (js ''v''))) =
      Thrown (js ''Too many form fields'')"
    by (simp add: checkForm_def MAX_FORM_FIELDS_def)
  have long: "checkForm [(js ''email'', FormString (replicate 1001 0x61))] =
      Thrown (js ''Form field too large'')"
    by (simp add: checkForm_def MAX_FORM_FIELDS_def MAX_FIELD_LENGTH_def)
  have script: "checkForm [(js ''email'', FormString (js ''<script>''))] =
      Thrown (js ''Invalid form data content'')"
    by (simp add: checkForm_def MAX_FORM_FIELDS_def MAX_FIELD_LENGTH_def string_eval)
  have facts: "pathname manyFieldsRequest = js ''/signin/password_signin''"
      "requestMethod manyFieldsRequest = js ''POST''"
      "headers manyFieldsRequest ''content-type'' = Some (js ''application/x-www-form-urlencoded'')"
      "\<not> exceeds (parseInt (orElse (headers manyFieldsRequest ''content-length'') (js ''0'')))
           MAX_PAYLOAD_SIZE"
      "\<not> timerFiresFirst manyFieldsRequest"
      "formEntries manyFieldsRequest = Some (replicate 11 (js ''f'', FormString (js ''v'')))"
    by (simp_all add: manyFieldsRequest_def request_eval parse_eval)
  have a: "withSecurityChecks noParse okHandler manyFieldsRequest () 0 =
       (Returned (NextResponse
          \<lparr>status = 400,
           responseBody = JSON_stringify [(js ''error'', js ''Invalid form data'')],
           responseHeaders = [''content-type'' \<mapsto> js ''application/json''],
           cookies = Map.empty\<rparr>), 0)"
    using withSecurityChecks_form_fields[OF facts(1,2,3) formRequest_facts(4,5) facts(4,5,6),
        of noParse okHandler "()" 0]
    by simp
  have jf: "pathname (jsonRequest shortPasswordText) = js ''/signin/password_signin''"
      "requestMethod (jsonRequest shortPasswordText) = js ''POST''"
      "headers (jsonRequest shortPasswordText) ''content-type'' = Some (js ''application/json'')"
      "includes_js (js ''application/json'') (js ''application/json'')"
      "\<not> exceeds (parseInt (orElse (headers (jsonRequest shortPasswordText) ''content-length'')
             (js ''0''))) MAX_PAYLOAD_SIZE"
      "\<not> timerFiresFirst (jsonRequest shortPasswordText)"
    by (rule jsonRequest_facts)+
  have race: "raceChecks sampleParse (jsonRequest shortPasswordText) (js ''application/json'') =
      validateJson sampleParse (bodyText (jsonRequest shortPasswordText))"
    using jf(5,4,6) by (rule raceChecks_json)
  have json: "validateJson sampleParse (bodyText (jsonRequest shortPasswordText)) =
      Thrown (js ''Invalid password length'')"
  proof -
    have f1: "length (bodyText (jsonRequest shortPasswordText)) \<le> MAX_PAYLOAD_SIZE"
      by (simp add: jsonRequest_facts text_eval js_def MAX_PAYLOAD_SIZE_def)
    have f2: "sampleParse (bodyText (jsonRequest shortPasswordText)) =
        Some (shortPasswordHeap, JRef 0)"
      by (simp add: jsonRequest_facts sampleParse_def text_eval js_def)
    have f3: "\<not> nests shortPasswordHeap (JRef 0) 4"
      by (simp add: eval_nat_numeral heap_eval)
    show ?thesis
      unfolding validateJson_parsed[of "bodyText (jsonRequest shortPasswordText)" sampleParse
          shortPasswordHeap "JRef 0", OF f1 f2 f3]
      by (simp add: heap_eval falsy_def typeof_def stringOf_def regex_eval js_def)
  qed
  have b: "withSecurityChecks sampleParse okHandler (jsonRequest shortPasswordText) () 0 =
       (Returned (NextResponse
          \<lparr>status = 400,
           responseBody = JSON_stringify [(js ''error'', js ''Invalid password length'')],
           responseHeaders = [''content-type'' \<mapsto> js ''application/json''],
           cookies = Map.empty\<rparr>), 0)"
    using withSecurityChecks_race[OF jf(1,2,3), of sampleParse okHandler "()" 0] jf(4) race json
    by (simp add: errorResponse_def)
  from withSecurityChecks_form_fields_examples many long script a b show ?thesis
    by simp
qed

text \<open>
  C3. For a POST to \<open>/signin/password_signin\<close> with JSON content that reaches the depth
  check: a body in which a chain of 4 objects is nested inside the top-level value (the
  top-level value has depth 0, the deepest object depth 4) is answered 400; a body without
  such a chain, so 3 nested levels at most, passes the depth check and, with valid
  credentials, reaches \<open>next\<close>; and for a value that contains itself the check answers
  \<open>true\<close>, the value counting as nested beyond every depth, so that such a body is
  answered 400 as well.
\<close>

theorem withSecurityChecks_nesting_depth:
  assumes "pathname request = js ''/signin/password_signin''"
    and "requestMethod request = js ''POST''"
    and "headers request ''content-type'' = Some contentType"
    and "includes_js contentType (js ''application/json'')"
    and "\<not> exceeds (parseInt (orElse (headers request ''content-length'') (js ''0'')))
           MAX_PAYLOAD_SIZE"
    and "\<not> timerFiresFirst request"
    and "length (bodyText request) \<le> 500000"
    and "JSON_parse (bodyText request) = Some (h, body)"
  shows "(nests h body 4 \<longrightarrow>
            withSecurityChecks JSON_parse next request event w =
              (Returned (NextResponse
                 \<lparr>status = 400,
                  responseBody = JSON_stringify [(js ''error'', js ''Payload structure too complex'')],
                  responseHeaders = [''content-type'' \<mapsto> js ''application/json''],
                  cookies = Map.empty\<rparr>), w))
       \<and> (fst (checkNestingDepth h body 0 {}) \<longleftrightarrow> nests h body 4)
       \<and> (\<not> nests h body 4 \<longrightarrow> validCredentials h body \<longrightarrow>
            withSecurityChecks JSON_parse next request event w = next request event w)
       \<and> (\<forall>g a. reaches g a (JRef a) \<longrightarrow>
            fst (checkNestingDepth g (JRef a) 0 {}) \<and> nests g (JRef a) 4)
       \<and> (\<forall>a. body = JRef a \<and> reaches h a (JRef a) \<longrightarrow>
            withSecurityChecks JSON_parse next request event w =
              (Returned (NextResponse
                 \<lparr>status = 400,
                  responseBody = JSON_stringify [(js ''error'', js ''Payload structure too complex'')],
                  responseHeaders = [''content-type'' \<mapsto> js ''application/json''],
                  cookies = Map.empty\<rparr>), w))"
proof (intro conjI impI allI)
  have size: "length (bodyText request) \<le> MAX_PAYLOAD_SIZE"
    using assms(7) by (simp add: MAX_PAYLOAD_SIZE_def)
  have race: "raceChecks JSON_parse request contentType =
      validateJson JSON_parse (bodyText request)"
    using assms(5,4,6) by (rule raceChecks_json)
  have stage: "withSecurityChecks JSON_parse next request event w =
    (case validateJson JSON_parse (bodyText request) of
       Thrown message \<Rightarrow>
         (Returned (NextResponse (errorResponse
            (if orElse (Some message) (js ''Request processing failed'') = js ''Payload too large''
             then 413 else 400)
            (orElse (Some message) (js ''Request processing failed'')))), w)
     | Returned u \<Rightarrow> next request event w)"
    using withSecurityChecks_race[OF assms(1,2,3), of JSON_parse "next" event w] assms(4) race
    by simp
  have rejected: "withSecurityChecks JSON_parse next request event w =
              (Returned (NextResponse
                 \<lparr>status = 400,
                  responseBody = JSON_stringify [(js ''error'', js ''Payload structure too complex'')],
                  responseHeaders = [''content-type'' \<mapsto> js ''application/json''],
                  cookies = Map.empty\<rparr>), w)" if deep: "nests h body 4"
  proof -
    from deep have "validateJson JSON_parse (bodyText request) =
        Thrown (js ''Payload structure too complex'')"
      using size assms(8) by (simp add: validateJson_def depth_bound_iff)
    then show ?thesis
      unfolding stage by (simp add: errorResponse_def)
  qed
  {
    assume "nests h body 4"
    then show "withSecurityChecks JSON_parse next request event w =
              (Returned (NextResponse
                 \<lparr>status = 400,
                  responseBody = JSON_stringify [(js ''error'', js ''Payload structure too complex'')],
                  responseHeaders = [''content-type'' \<mapsto> js ''application/json''],
                  cookies = Map.empty\<rparr>), w)"
      by (rule rejected)
  }
  {
    fix a
    assume "body = JRef a \<and> reaches h a (JRef a)"
    then have "nests h body 4" using cycle_nests[of h a 4] by simp
    then show "withSecurityChecks JSON_parse next request event w =
              (Returned (NextResponse
                 \<lparr>status = 400,
                  responseBody = JSON_stringify [(js ''error'', js ''Payload structure too complex'')],
                  responseHeaders = [''content-type'' \<mapsto> js ''application/json''],
                  cookies = Map.empty\<rparr>), w)"
      by (rule rejected)
  }
  show "fst (checkNestingDepth h body 0 {}) \<longleftrightarrow> nests h body 4"
    by (rule depth_bound_iff)
  {
    assume "\<not> nests h body 4" and "validCredentials h body"
    then have "validateJson JSON_parse (bodyText request) = Returned ()"
      using validateJson_accepts[of "bodyText request" JSON_parse h body, OF size assms(8)]
      by simp
    then show "withSecurityChecks JSON_parse next request event w = next request event w"
      unfolding stage by simp
  }
  {
    fix g a
    assume "reaches g a (JRef a)"
    then show "nests g (JRef a) 4" by (rule cycle_nests)
    then show "fst (checkNestingDepth g (JRef a) 0 {})" by (simp only: depth_bound_iff)
  }
qed

theorem withSecurityChecks_nesting_depth_witness:
  "withSecurityChecks sampleParse okHandler (jsonRequest depth4Text) () 0 =
     (Returned (NextResponse
        \<lparr>status = 400,
         responseBody = JSON_stringify [(js ''error'', js ''Payload structure too complex'')],
         responseHeaders = [''content-type'' \<mapsto> js ''application/json''],
         cookies = Map.empty\<rparr>), 0)
   \<and> nests depth3Heap (JRef 0) 3
   \<and> withSecurityChecks sampleParse okHandler (jsonRequest depth3Text) () 0 =
       okHandler (jsonRequest depth3Text) () 0
   \<and> fst (checkNestingDepth cyclicHeap (JRef 0) 0 {})"
proof -
  have len: "length (bodyText (jsonRequest depth4Text)) \<le> 500000"
      "length (bodyText (jsonRequest depth3Text)) \<le> 500000"
    by (simp_all add: jsonRequest_facts text_eval js_def)
  have parse: "sampleParse (bodyText (jsonRequest depth4Text)) = Some (depth4Heap, JRef 0)"
      "sampleParse (bodyText (jsonRequest depth3Text)) = Some (depth3Heap, JRef 0)"
    by (simp_all add: jsonRequest_facts sampleParse_def text_eval js_def)
  have deep: "nests depth4Heap (JRef 0) 4"
    by (simp add: eval_nat_numeral heap_eval)
  have three: "nests depth3Heap (JRef 0) 3" and shallow: "\<not> nests depth3Heap (JRef 0) 4"
    by (simp_all add: eval_nat_numeral heap_eval)
  have creds: "validCredentials depth3Heap (JRef 0)"
    by (simp add: validCredentials_def heap_eval regex_eval js_def)
  have cycle: "reaches cyclicHeap 0 (JRef 0)"
    by (rule reaches.child[of "js ''self''"]) (simp add: cyclicHeap_def)
  note four = withSecurityChecks_nesting_depth[OF jsonRequest_facts(1-6) len(1), of sampleParse
      depth4Heap "JRef 0" okHandler "()" 0, OF parse(1)]
  note thr = withSecurityChecks_nesting_depth[OF jsonRequest_facts(1-6) len(2), of sampleParse
      depth3Heap "JRef 0" okHandler "()" 0, OF parse(2)]
  from four deep have a: "withSecurityChecks sampleParse okHandler (jsonRequest depth4Text) () 0 =
     (Returned (NextResponse
        \<lparr>status = 400,
         responseBody = JSON_stringify [(js ''error'', js ''Payload structure too complex'')],
         responseHeaders = [''content-type'' \<mapsto> js ''application/json''],
         cookies = Map.empty\<rparr>), 0)"
    by blast
  from thr shallow creds have b: "withSecurityChecks sampleParse okHandler (jsonRequest depth3Text) () 0 =
       okHandler (jsonRequest depth3Text) () 0"
    by blast
  from thr cycle have c: "fst (checkNestingDepth cyclicHeap (JRef 0) 0 {})"
    by blast
  from a three b c show ?thesis by simp
qed

end
